theory Spec2Isabelle
  imports Complex_Main
begin

section \<open>JavaScript text primitives\<close>

text \<open>
  Text is modelled as ASCII: a \<open>string\<close> is the list of the UTF-16 code units of a
  JavaScript string, each below 128. Case mapping turns the 26 letters and leaves every
  other character alone, and white space is the ASCII part of the class \<open>\s\<close>: tab, line
  feed, vertical tab, form feed, carriage return and space.
\<close>

definition is_space :: "char \<Rightarrow> bool" where
  "is_space c = (c \<in> set [CHR 0x09, CHR 0x0A, CHR 0x0B, CHR 0x0C, CHR 0x0D, CHR '' ''])"

definition upper_letters :: string where
  "upper_letters = ''ABCDEFGHIJKLMNOPQRSTUVWXYZ''"

definition lower_letters :: string where
  "lower_letters = ''abcdefghijklmnopqrstuvwxyz''"

definition toLowerChar :: "char \<Rightarrow> char" where
  "toLowerChar c = (case map_of (zip upper_letters lower_letters) c of None \<Rightarrow> c | Some d \<Rightarrow> d)"

definition toUpperChar :: "char \<Rightarrow> char" where
  "toUpperChar c = (case map_of (zip lower_letters upper_letters) c of None \<Rightarrow> c | Some d \<Rightarrow> d)"

definition toLowerCase :: "string \<Rightarrow> string" where
  "toLowerCase s = map toLowerChar s"

definition toUpperCase :: "string \<Rightarrow> string" where
  "toUpperCase s = map toUpperChar s"

text \<open>\<open>s.charAt(i)\<close>: the one-character string at index \<open>i\<close>, the empty string out of range.\<close>

definition charAt :: "string \<Rightarrow> nat \<Rightarrow> string" where
  "charAt s i = (if i < length s then [s ! i] else [])"

text \<open>\<open>xs[i]\<close> on an array: \<open>None\<close> stands for \<open>undefined\<close>, also at a negative index.\<close>

definition array_get :: "'a list \<Rightarrow> int \<Rightarrow> 'a option" where
  "array_get xs i = (if 0 \<le> i \<and> i < int (length xs) then Some (xs ! nat i) else None)"

text \<open>
  \<open>s.split(/\s+/)\<close>: the pieces between the maximal runs of white space. A run at the
  start or at the end of the text leaves an empty piece there, and the empty text gives
  one empty piece.
\<close>

lemma split_ws_shorter:
  "dropWhile (\<lambda>c. \<not> is_space c) cs \<noteq> [] \<Longrightarrow>
     length (dropWhile is_space (dropWhile (\<lambda>c. \<not> is_space c) cs)) < length cs"
proof -
  assume ne: "dropWhile (\<lambda>c. \<not> is_space c) cs \<noteq> []"
  then obtain d ds where r: "dropWhile (\<lambda>c. \<not> is_space c) cs = d # ds"
    by (cases "dropWhile (\<lambda>c. \<not> is_space c) cs") auto
  have "is_space d"
    using hd_dropWhile [OF ne] r by simp
  then have "length (dropWhile is_space (d # ds)) \<le> length ds"
    by (simp add: length_dropWhile_le)
  moreover have "length (d # ds) \<le> length cs"
    using length_dropWhile_le [of "\<lambda>c. \<not> is_space c" cs] r by simp
  ultimately show ?thesis
    using r by simp
qed

function split_ws :: "string \<Rightarrow> string list" where
  "split_ws cs =
     (let piece = takeWhile (\<lambda>c. \<not> is_space c) cs;
          rest = dropWhile (\<lambda>c. \<not> is_space c) cs
      in if rest = [] then [piece] else piece # split_ws (dropWhile is_space rest))"
  by pat_completeness auto
termination
  by (relation "measure length") (auto simp: split_ws_shorter)

declare split_ws.simps [simp del]

section \<open>The cross-question generator\<close>

definition stopWords :: "string list" where
  "stopWords =
     [''is'', ''am'', ''are'', ''was'', ''were'', ''the'', ''a'', ''an'', ''and'', ''or'',
      ''to'', ''of'', ''in'', ''on'', ''for'', ''with'', ''this'', ''that'', ''it'', ''as'',
      ''by'', ''from'']"

definition fallback_prompt :: string where
  "fallback_prompt = ''Can you explain that in more detail?''"

text \<open>
  \<open>generateCrossQuestion\<close> of the question section. \<open>!answer\<close> holds of the empty
  string only; \<open>!keyword\<close> holds of \<open>undefined\<close> (no keyword) and of the empty string.
\<close>

definition generateCrossQuestion :: "string \<Rightarrow> string" where
  "generateCrossQuestion answer =
     (if answer = [] then fallback_prompt
      else
        let words = split_ws (toLowerCase answer);
            keywords = filter (\<lambda>word. 2 < length word \<and> word \<notin> set stopWords) words
        in case array_get keywords (int (length keywords) - 1) of
             None \<Rightarrow> fallback_prompt
           | Some keyword \<Rightarrow>
               if keyword = [] then fallback_prompt
               else
                 let formattedKeyword = toUpperCase (charAt keyword 0) @ drop 1 keyword
                 in ''What is '' @ formattedKeyword @ ''?'')"

section \<open>More text primitives\<close>

text \<open>\<open>s.includes(pat)\<close>: \<open>pat\<close> occurs in \<open>s\<close> as a contiguous piece.\<close>

fun str_includes :: "string \<Rightarrow> string \<Rightarrow> bool" where
  "str_includes [] pat = (pat = [])"
| "str_includes (c # cs) pat = (take (length pat) (c # cs) = pat \<or> str_includes cs pat)"

text \<open>\<open>s.trim()\<close>: the white space at both ends goes.\<close>

definition js_trim :: "string \<Rightarrow> string" where
  "js_trim s = rev (dropWhile is_space (rev (dropWhile is_space s)))"

text \<open>
  \<open>s.replace(/(p1|p2|...)/g, "")\<close> for literal alternatives: the text is scanned from
  the left; at each position the first alternative that matches there is removed and the
  scan goes on behind it, otherwise the character stays.
\<close>

definition match_at :: "string list \<Rightarrow> string \<Rightarrow> string option" where
  "match_at pats s = find (\<lambda>p. p \<noteq> [] \<and> take (length p) s = p) pats"

lemma match_at_shorter:
  "match_at pats (c # cs) = Some p \<Longrightarrow> length (drop (length p) (c # cs)) < length (c # cs)"
  by (auto simp: match_at_def find_Some_iff)

function remove_matches :: "string list \<Rightarrow> string \<Rightarrow> string" where
  "remove_matches pats [] = []"
| "remove_matches pats (c # cs) =
     (case match_at pats (c # cs) of
        Some p \<Rightarrow> remove_matches pats (drop (length p) (c # cs))
      | None \<Rightarrow> c # remove_matches pats cs)"
  by pat_completeness auto
termination
  by (relation "measure (\<lambda>(pats, s). length s)") (auto dest: match_at_shorter)

text \<open>\<open>s.indexOf(c)\<close> and \<open>s.lastIndexOf(c)\<close> for a one-character \<open>c\<close>: \<open>-1\<close> when absent.\<close>

definition indexOf :: "string \<Rightarrow> char \<Rightarrow> int" where
  "indexOf s c = (if c \<in> set s then int (length (takeWhile (\<lambda>x. x \<noteq> c) s)) else - 1)"

definition lastIndexOf :: "string \<Rightarrow> char \<Rightarrow> int" where
  "lastIndexOf s c =
     (if c \<in> set s then int (length s) - 1 - int (length (takeWhile (\<lambda>x. x \<noteq> c) (rev s)))
      else - 1)"

text \<open>
  \<open>s.slice(start, stop)\<close>: a negative index counts from the end, both are clamped to the
  text, and the result is empty unless the start lies before the stop.
\<close>

definition js_slice :: "string \<Rightarrow> int \<Rightarrow> int \<Rightarrow> string" where
  "js_slice s start stop =
     (let len = int (length s);
          lo = (if start < 0 then max (len + start) 0 else min start len);
          hi = (if stop < 0 then max (len + stop) 0 else min stop len)
      in if lo < hi then take (nat (hi - lo)) (drop (nat lo) s) else [])"

section \<open>JSON.parse\<close>

text \<open>
  \<open>JSON.parse\<close> is a built-in of the platform. It is modelled by a recursive-descent
  parser of the JSON grammar. A number is its exact decimal value (the rounding to a
  double is not modelled), and of a repeated key of an object every occurrence is kept,
  the last one being the one a property access reads. An escape \<open>\uXXXX\<close> stands for the
  code unit of that number: below 128 it is the character itself, and a higher one, which
  only an escape brings into an ASCII text, is held as the two or three bytes of the UTF-8
  form of its number.
\<close>

datatype json =
    JNull
  | JBool bool
  | JNumber rat
  | JString string
  | JArray "json list"
  | JObject "(string \<times> json) list"

datatype parse_error = SyntaxError | OutOfFuel

definition is_json_ws :: "char \<Rightarrow> bool" where
  "is_json_ws c = (c \<in> set [CHR '' '', CHR 0x09, CHR 0x0A, CHR 0x0D])"

definition skip_ws :: "string \<Rightarrow> string" where
  "skip_ws cs = dropWhile is_json_ws cs"

definition digit_chars :: string where
  "digit_chars = ''0123456789''"

definition is_digit :: "char \<Rightarrow> bool" where
  "is_digit c = (c \<in> set digit_chars)"

definition digit_val :: "char \<Rightarrow> nat" where
  "digit_val c = (case map_of (zip digit_chars [0, 1, 2, 3, 4, 5, 6, 7, 8, 9]) c of
                    Some n \<Rightarrow> n | None \<Rightarrow> 0)"

definition nat_of_digits :: "string \<Rightarrow> nat" where
  "nat_of_digits ds = foldl (\<lambda>n c. 10 * n + digit_val c) 0 ds"

definition hex_val :: "char \<Rightarrow> nat option" where
  "hex_val c = map_of (zip ''0123456789abcdefABCDEF''
                 [0, 1, 2, 3, 4, 5, 6, 7, 8, 9, 10, 11, 12, 13, 14, 15, 10, 11, 12, 13, 14, 15]) c"

definition control_chars :: string where
  "control_chars =
     [CHR 0x00, CHR 0x01, CHR 0x02, CHR 0x03, CHR 0x04, CHR 0x05, CHR 0x06, CHR 0x07,
      CHR 0x08, CHR 0x09, CHR 0x0A, CHR 0x0B, CHR 0x0C, CHR 0x0D, CHR 0x0E, CHR 0x0F,
      CHR 0x10, CHR 0x11, CHR 0x12, CHR 0x13, CHR 0x14, CHR 0x15, CHR 0x16, CHR 0x17,
      CHR 0x18, CHR 0x19, CHR 0x1A, CHR 0x1B, CHR 0x1C, CHR 0x1D, CHR 0x1E, CHR 0x1F]"

definition escape_char :: "char \<Rightarrow> char option" where
  "escape_char e =
     map_of [(CHR 0x22, CHR 0x22), (CHR 0x5C, CHR 0x5C), (CHR ''/'', CHR ''/''),
             (CHR ''b'', CHR 0x08), (CHR ''f'', CHR 0x0C), (CHR ''n'', CHR 0x0A),
             (CHR ''r'', CHR 0x0D), (CHR ''t'', CHR 0x09)] e"

definition hex4 :: "char \<Rightarrow> char \<Rightarrow> char \<Rightarrow> char \<Rightarrow> nat option" where
  "hex4 a b c d =
     (case (hex_val a, hex_val b, hex_val c, hex_val d) of
        (Some x, Some y, Some z, Some w) \<Rightarrow> Some (((x * 16 + y) * 16 + z) * 16 + w)
      | _ \<Rightarrow> None)"

definition code_unit_bytes :: "nat \<Rightarrow> string" where
  "code_unit_bytes n =
     (if n < 128 then [char_of n]
      else if n < 2048 then [char_of (192 + n div 64), char_of (128 + n mod 64)]
      else [char_of (224 + n div 4096), char_of (128 + n div 64 mod 64),
            char_of (128 + n mod 64)])"

text \<open>The characters of a string literal behind its opening quote, and the text behind it.\<close>

fun parse_string_chars :: "string \<Rightarrow> (string \<times> string) option" where
  "parse_string_chars [] = None"
| "parse_string_chars (c # cs) =
     (if c = CHR 0x22 then Some ([], cs)
      else if c = CHR 0x5C then
        (case cs of
           [] \<Rightarrow> None
         | e # r \<Rightarrow>
             if e = CHR ''u'' then
               (case r of
                  a # b # c' # d # r' \<Rightarrow>
                    (case hex4 a b c' d of
                       None \<Rightarrow> None
                     | Some n \<Rightarrow>
                         map_option (\<lambda>(s, t). (code_unit_bytes n @ s, t))
                           (parse_string_chars r'))
                | _ \<Rightarrow> None)
             else
               (case escape_char e of
                  None \<Rightarrow> None
                | Some x \<Rightarrow> map_option (\<lambda>(s, t). (x # s, t)) (parse_string_chars r)))
      else if c \<in> set control_chars then None
      else map_option (\<lambda>(s, t). (c # s, t)) (parse_string_chars cs))"

definition parse_digits1 :: "string \<Rightarrow> (string \<times> string) option" where
  "parse_digits1 cs =
     (if takeWhile is_digit cs = [] then None
      else Some (takeWhile is_digit cs, dropWhile is_digit cs))"

definition parse_int_part :: "string \<Rightarrow> (string \<times> string) option" where
  "parse_int_part cs =
     (case cs of
        [] \<Rightarrow> None
      | c # r \<Rightarrow> if c = CHR ''0'' then Some ([c], r) else parse_digits1 cs)"

definition parse_frac :: "string \<Rightarrow> (string \<times> string) option" where
  "parse_frac cs =
     (case cs of
        [] \<Rightarrow> Some ([], [])
      | c # r \<Rightarrow> if c = CHR ''.'' then parse_digits1 r else Some ([], cs))"

definition parse_exp :: "string \<Rightarrow> (int \<times> string) option" where
  "parse_exp cs =
     (case cs of
        [] \<Rightarrow> Some (0, [])
      | c # r \<Rightarrow>
          if c = CHR ''e'' \<or> c = CHR ''E'' then
            (case r of
               [] \<Rightarrow> None
             | s # r' \<Rightarrow>
                 if s = CHR ''-'' then
                   map_option (\<lambda>(ds, t). (- int (nat_of_digits ds), t)) (parse_digits1 r')
                 else if s = CHR ''+'' then
                   map_option (\<lambda>(ds, t). (int (nat_of_digits ds), t)) (parse_digits1 r')
                 else map_option (\<lambda>(ds, t). (int (nat_of_digits ds), t)) (parse_digits1 r))
          else Some (0, cs))"

definition scale10 :: "rat \<Rightarrow> int \<Rightarrow> rat" where
  "scale10 m k = (if 0 \<le> k then m * 10 ^ nat k else m / 10 ^ nat (- k))"

definition parse_number :: "string \<Rightarrow> (rat \<times> string) option" where
  "parse_number cs =
     (let neg = (cs \<noteq> [] \<and> hd cs = CHR ''-'');
          cs1 = (if neg then tl cs else cs)
      in case parse_int_part cs1 of
           None \<Rightarrow> None
         | Some (ids, r1) \<Rightarrow>
             (case parse_frac r1 of
                None \<Rightarrow> None
              | Some (fds, r2) \<Rightarrow>
                  (case parse_exp r2 of
                     None \<Rightarrow> None
                   | Some (e, r3) \<Rightarrow>
                       Some ((if neg then - 1 else 1)
                               * scale10 (of_nat (nat_of_digits (ids @ fds))) (e - int (length fds)),
                             r3))))"

text \<open>
  The value at the head of a text, and the text behind it. The fuel bounds the recursion:
  it goes down by one at each value, element list and member list.
\<close>

fun parse_value :: "nat \<Rightarrow> string \<Rightarrow> parse_error + (json \<times> string)"
  and parse_elements :: "nat \<Rightarrow> string \<Rightarrow> parse_error + (json list \<times> string)"
  and parse_members :: "nat \<Rightarrow> string \<Rightarrow> parse_error + ((string \<times> json) list \<times> string)"
where
  "parse_value 0 cs = Inl OutOfFuel"
| "parse_value (Suc f) cs =
     (case cs of
        [] \<Rightarrow> Inl SyntaxError
      | c # r \<Rightarrow>
          if c = CHR ''['' then
            (case skip_ws r of
               [] \<Rightarrow> Inl SyntaxError
             | d # r' \<Rightarrow>
                 if d = CHR '']'' then Inr (JArray [], r')
                 else (case parse_elements f (d # r') of
                         Inl e \<Rightarrow> Inl e
                       | Inr (vs, t) \<Rightarrow> Inr (JArray vs, t)))
          else if c = CHR ''{'' then
            (case skip_ws r of
               [] \<Rightarrow> Inl SyntaxError
             | d # r' \<Rightarrow>
                 if d = CHR ''}'' then Inr (JObject [], r')
                 else (case parse_members f (d # r') of
                         Inl e \<Rightarrow> Inl e
                       | Inr (kvs, t) \<Rightarrow> Inr (JObject kvs, t)))
          else if c = CHR 0x22 then
            (case parse_string_chars r of
               None \<Rightarrow> Inl SyntaxError
             | Some (s, t) \<Rightarrow> Inr (JString s, t))
          else if take 4 cs = ''true'' then Inr (JBool True, drop 4 cs)
          else if take 5 cs = ''false'' then Inr (JBool False, drop 5 cs)
          else if take 4 cs = ''null'' then Inr (JNull, drop 4 cs)
          else
            (case parse_number cs of
               None \<Rightarrow> Inl SyntaxError
             | Some (x, t) \<Rightarrow> Inr (JNumber x, t)))"
| "parse_elements 0 cs = Inl OutOfFuel"
| "parse_elements (Suc f) cs =
     (case parse_value f (skip_ws cs) of
        Inl e \<Rightarrow> Inl e
      | Inr (v, r) \<Rightarrow>
          (case skip_ws r of
             [] \<Rightarrow> Inl SyntaxError
           | d # r' \<Rightarrow>
               if d = CHR '','' then
                 (case parse_elements f r' of
                    Inl e \<Rightarrow> Inl e
                  | Inr (vs, t) \<Rightarrow> Inr (v # vs, t))
               else if d = CHR '']'' then Inr ([v], r')
               else Inl SyntaxError))"
| "parse_members 0 cs = Inl OutOfFuel"
| "parse_members (Suc f) cs =
     (case skip_ws cs of
        [] \<Rightarrow> Inl SyntaxError
      | q # r \<Rightarrow>
          if q \<noteq> CHR 0x22 then Inl SyntaxError
          else
            (case parse_string_chars r of
               None \<Rightarrow> Inl SyntaxError
             | Some (k, r1) \<Rightarrow>
                 (case skip_ws r1 of
                    [] \<Rightarrow> Inl SyntaxError
                  | colon # r2 \<Rightarrow>
                      if colon \<noteq> CHR '':'' then Inl SyntaxError
                      else
                        (case parse_value f (skip_ws r2) of
                           Inl e \<Rightarrow> Inl e
                         | Inr (v, r3) \<Rightarrow>
                             (case skip_ws r3 of
                                [] \<Rightarrow> Inl SyntaxError
                              | d # r4 \<Rightarrow>
                                  if d = CHR '','' then
                                    (case parse_members f r4 of
                                       Inl e \<Rightarrow> Inl e
                                     | Inr (kvs, t) \<Rightarrow> Inr ((k, v) # kvs, t))
                                  else if d = CHR ''}'' then Inr ([(k, v)], r4)
                                  else Inl SyntaxError)))))"

text \<open>
  \<open>JSON.parse(text)\<close>: one value between optional white space, and nothing else. The
  fuel is more than the parser can use on a text of this length.
\<close>

definition JSON_parse :: "string \<Rightarrow> parse_error + json" where
  "JSON_parse t =
     (case parse_value (2 * length t + 1) (skip_ws t) of
        Inl e \<Rightarrow> Inl e
      | Inr (v, r) \<Rightarrow> if skip_ws r = [] then Inr v else Inl SyntaxError)"

section \<open>The intake form: cleaning the reply and asking again\<close>

text \<open>
  \<open>cleanAiResponse\<close>: the piece of the reply that \<open>slice\<close> cuts out from the index of
  the first opening bracket to behind the index of the last closing bracket, parsed as
  JSON. \<open>Inl\<close> is the \<open>SyntaxError\<close> that \<open>JSON.parse\<close> throws.
\<close>

definition bracket_slice :: "string \<Rightarrow> string" where
  "bracket_slice t =
     (let start = indexOf t (CHR ''['');
          stop = lastIndexOf t (CHR '']'')
      in js_slice t start (stop + 1))"

definition cleanAiResponse :: "string \<Rightarrow> parse_error + json" where
  "cleanAiResponse t = JSON_parse (bracket_slice t)"

text \<open>
  A thrown value: whether it is an instance of \<open>Error\<close>, and its message. One call of the
  AI service either returns the text of a reply or throws.
\<close>

datatype thrown = Thrown (is_Error: bool) (message: string)

datatype ai_outcome = AiText string | AiThrow thrown

text \<open>
  The body of the \<open>try\<close> block of \<open>generateQuestions\<close>: the call, then the cleaning of
  its reply. A reply that does not parse throws a \<open>SyntaxError\<close>, an instance of
  \<open>Error\<close>; its message is the engine's own, so it is the parameter \<open>syntax_message\<close>,
  a function of the text given to \<open>JSON.parse\<close>.
\<close>

definition attempt :: "(string \<Rightarrow> string) \<Rightarrow> ai_outcome \<Rightarrow> thrown + json" where
  "attempt syntax_message out =
     (case out of
        AiThrow e \<Rightarrow> Inl e
      | AiText t \<Rightarrow>
          (case cleanAiResponse t of
             Inl _ \<Rightarrow> Inl (Thrown True (syntax_message (bracket_slice t)))
           | Inr v \<Rightarrow> Inr v))"

definition maxAttempts :: nat where
  "maxAttempts = 3"

text \<open>
  What a run of \<open>generateQuestions\<close> leaves: the value returned (\<open>None\<close> is \<open>undefined\<close>,
  the value of a function that falls out of its loop) or the value thrown, the number of
  calls of the AI service, and the delays waited for, in milliseconds.
\<close>

record gq_result =
  outcome :: "thrown + json option"
  calls :: nat
  delays :: "nat list"

text \<open>
  The loop of \<open>generateQuestions\<close>, from a value of the counter \<open>attempts\<close>. The service
  is the function \<open>service\<close> from the number of a call, counted from 0, to its outcome; the
  loop makes call number \<open>attempts\<close> at each turn.
\<close>

function generateQuestions_loop ::
  "(string \<Rightarrow> string) \<Rightarrow> (nat \<Rightarrow> ai_outcome) \<Rightarrow> nat \<Rightarrow> gq_result" where
  "generateQuestions_loop syntax_message service attempts =
     (if attempts < maxAttempts then
        (case attempt syntax_message (service attempts) of
           Inr v \<Rightarrow> \<lparr>outcome = Inr (Some v), calls = attempts + 1, delays = []\<rparr>
         | Inl e \<Rightarrow>
             if is_Error e \<and> str_includes (message e) ''503'' \<and> attempts < maxAttempts - 1
             then
               (let r = generateQuestions_loop syntax_message service (attempts + 1)
                in r\<lparr>delays := 2000 # delays r\<rparr>)
             else \<lparr>outcome = Inl e, calls = attempts + 1, delays = []\<rparr>)
      else \<lparr>outcome = Inr None, calls = attempts, delays = []\<rparr>)"
  by pat_completeness auto
termination
  by (relation "measure (\<lambda>(m, s, attempts). maxAttempts - attempts)") auto

declare generateQuestions_loop.simps [simp del]

definition generateQuestions :: "(string \<Rightarrow> string) \<Rightarrow> (nat \<Rightarrow> ai_outcome) \<Rightarrow> gq_result" where
  "generateQuestions syntax_message service = generateQuestions_loop syntax_message service 0"

section \<open>The interview flow controller\<close>

record qa_pair =
  qa_question :: string
  qa_answer :: string

record answer_record =
  ans_question :: string
  ans_answer :: string
  ans_correct :: string

record flow_state =
  isPlaying :: bool
  activeIndex :: nat
  showQuestion :: bool
  allAnswers :: "answer_record list"
  isCrossQuestion :: bool
  crossQuestionText :: string
  tempMainAnswer :: string

definition initial_flow :: flow_state where
  "initial_flow =
     \<lparr>isPlaying = False, activeIndex = 0, showQuestion = False, allAnswers = [],
      isCrossQuestion = False, crossQuestionText = [], tempMainAnswer = []\<rparr>"

text \<open>What a handler does to the world outside the component's state.\<close>

datatype flow_effect =
    CancelSpeech
  | Navigate string "answer_record list" "qa_pair list"

datatype flow_error = TypeError

text \<open>
  The text that the effect on \<open>activeIndex\<close>, \<open>isCrossQuestion\<close>, \<open>crossQuestionText\<close> and
  \<open>questions\<close> has spoken after a render: the cross-question when there is one, the
  question at the active index otherwise, nothing when the index has no question.
\<close>

definition spoken_text :: "qa_pair list \<Rightarrow> flow_state \<Rightarrow> string option" where
  "spoken_text questions st =
     (if isCrossQuestion st \<and> crossQuestionText st \<noteq> [] then Some (crossQuestionText st)
      else map_option qa_question (array_get questions (int (activeIndex st))))"

text \<open>
  \<open>handleNextQuestion\<close>. Reading \<open>questions[activeIndex].question\<close> where the index has
  no question throws a \<open>TypeError\<close>.
\<close>

definition handleNextQuestion ::
  "qa_pair list \<Rightarrow> flow_state \<Rightarrow> string \<Rightarrow> flow_error + (flow_state \<times> flow_effect list)" where
  "handleNextQuestion questions st answer =
     (let st1 = st\<lparr>showQuestion := False\<rparr>
      in if \<not> isCrossQuestion st then
           (let crossQ = generateCrossQuestion answer
            in Inr (st1\<lparr>tempMainAnswer := answer, crossQuestionText := crossQ,
                        isCrossQuestion := True\<rparr>,
                    [CancelSpeech]))
         else
           (case array_get questions (int (activeIndex st)) of
              None \<Rightarrow> Inl TypeError
            | Some q \<Rightarrow>
                (let currentAnswer =
                       \<lparr>ans_question = qa_question q,
                        ans_answer = tempMainAnswer st @ '' | Follow-up: '' @ answer,
                        ans_correct = qa_answer q\<rparr>;
                     updatedAnswers = allAnswers st @ [currentAnswer];
                     st2 = st1\<lparr>allAnswers := updatedAnswers, isCrossQuestion := False,
                                crossQuestionText := [], tempMainAnswer := []\<rparr>
                 in if int (activeIndex st) < int (length questions) - 1
                    then Inr (st2\<lparr>activeIndex := activeIndex st + 1\<rparr>, [CancelSpeech])
                    else Inr (st2,
                              [CancelSpeech,
                               Navigate ''/generate/feedback/demo'' updatedAnswers questions]))))"

text \<open>
  The controller driven by alternating submissions: for each pair, the answer to the
  main question, then the answer to its cross-question. Each round records the state and
  the effects after either submission.
\<close>

type_synonym flow_step = "flow_state \<times> flow_effect list"

fun run_flow ::
  "qa_pair list \<Rightarrow> flow_state \<Rightarrow> (string \<times> string) list \<Rightarrow> flow_error + (flow_step \<times> flow_step) list"
where
  "run_flow questions st [] = Inr []"
| "run_flow questions st (p # ps) =
     (case handleNextQuestion questions st (fst p) of
        Inl e \<Rightarrow> Inl e
      | Inr main_step \<Rightarrow>
          (case handleNextQuestion questions (fst main_step) (snd p) of
             Inl e \<Rightarrow> Inl e
           | Inr cross_step \<Rightarrow>
               (case run_flow questions (fst cross_step) ps of
                  Inl e \<Rightarrow> Inl e
                | Inr rounds \<Rightarrow> Inr ((main_step, cross_step) # rounds))))"

text \<open>The answers and questions handed to the navigations among some effects.\<close>

fun navigations :: "flow_effect list \<Rightarrow> (answer_record list \<times> qa_pair list) list" where
  "navigations [] = []"
| "navigations (CancelSpeech # es) = navigations es"
| "navigations (Navigate path answers questions # es) = (answers, questions) # navigations es"

section \<open>The answer recorder\<close>

text \<open>
  What the component is given: its props, and the identities that the routing and the
  authentication hooks return (\<open>None\<close> is \<open>undefined\<close> or \<open>null\<close>).
\<close>

record recorder_inputs =
  question :: qa_pair
  questions :: "qa_pair list"
  currentIndex :: nat
  totalQuestions :: nat
  interviewId :: "string option"
  userId :: "string option"

datatype toast = ToastError string | ToastSuccess string

text \<open>
  The document that \<open>addDoc\<close> writes to the collection \<open>userAnswers\<close>. The two time
  stamps are assigned by the server and are left out.
\<close>

record user_answer_doc =
  mockIdRef :: "string option"
  doc_question :: string
  correct_ans :: string
  user_ans :: string
  overall_feedback :: json
  overall_rating :: json
  doc_userId :: "string option"

text \<open>
  The state of the component and the part of the world it acts on. \<open>isRecording\<close> is
  the flag of the speech hook, \<open>recorded_answers\<close> the component's own \<open>allAnswers\<close>,
  \<open>modal_open\<close> its \<open>open\<close>, and \<open>timerRef\<close> the handle in \<open>timerRef.current\<close>.
  Outside the component: the handles of the interval timers that run, the next handle
  \<open>setInterval\<close> gives out, the toasts shown, the documents written, and the answers for
  which a call of \<open>onSubmit\<close> is scheduled.
\<close>

record recorder =
  isRecording :: bool
  userAnswer :: string
  recorded_answers :: "string list"
  isAiGenerating :: bool
  aiResult :: "json option"
  modal_open :: bool
  loading :: bool
  recordingTime :: nat
  timerRef :: "nat option"
  active_timers :: "nat list"
  next_timer :: nat
  toasts :: "toast list"
  saved_docs :: "user_answer_doc list"
  pending_submits :: "string list"

definition initial_recorder :: recorder where
  "initial_recorder =
     \<lparr>isRecording = False, userAnswer = [], recorded_answers = [], isAiGenerating = False,
      aiResult = None, modal_open = False, loading = False, recordingTime = 0,
      timerRef = None, active_timers = [], next_timer = 1, toasts = [], saved_docs = [],
      pending_submits = []\<rparr>"

definition MIN_RECORD_TIME :: nat where
  "MIN_RECORD_TIME = 30"

definition isLastQuestion :: "recorder_inputs \<Rightarrow> bool" where
  "isLastQuestion inp = (int (currentIndex inp) = int (totalQuestions inp) - 1)"

definition add_toast :: "toast \<Rightarrow> recorder \<Rightarrow> recorder" where
  "add_toast t w = w\<lparr>toasts := toasts w @ [t]\<rparr>"

text \<open>Truthiness of a parsed value, and of a value that may be \<open>null\<close> or \<open>undefined\<close>.\<close>

fun truthy :: "json \<Rightarrow> bool" where
  "truthy JNull = False"
| "truthy (JBool b) = b"
| "truthy (JNumber x) = (x \<noteq> 0)"
| "truthy (JString s) = (s \<noteq> [])"
| "truthy (JArray vs) = True"
| "truthy (JObject kvs) = True"

definition truthy_opt :: "json option \<Rightarrow> bool" where
  "truthy_opt r = (case r of None \<Rightarrow> False | Some v \<Rightarrow> truthy v)"

text \<open>
  \<open>r?.k\<close> for the keys \<open>feedback\<close> and \<open>ratings\<close>: \<open>undefined\<close> on \<open>null\<close>, on a value
  that is no object and on an object without the key; \<open>x || d\<close> is \<open>d\<close> unless \<open>x\<close> is
  truthy.
\<close>

fun get_prop :: "json \<Rightarrow> string \<Rightarrow> json option" where
  "get_prop (JObject kvs) k = map_of (rev kvs) k"
| "get_prop v k = None"

definition optional_prop :: "json option \<Rightarrow> string \<Rightarrow> json option" where
  "optional_prop r k = (case r of None \<Rightarrow> None | Some v \<Rightarrow> get_prop v k)"

definition or_default :: "json option \<Rightarrow> json \<Rightarrow> json" where
  "or_default x d = (if truthy_opt x then the x else d)"

text \<open>
  The timer: \<open>clearInterval\<close> stops the interval of a handle, \<open>setInterval\<close> starts one
  under a new handle, and \<open>if (timerRef.current)\<close> holds of a handle other than 0.
\<close>

definition clearInterval :: "nat \<Rightarrow> recorder \<Rightarrow> recorder" where
  "clearInterval h w = w\<lparr>active_timers := removeAll h (active_timers w)\<rparr>"

definition timer_held :: "recorder \<Rightarrow> bool" where
  "timer_held w = (case timerRef w of None \<Rightarrow> False | Some h \<Rightarrow> h \<noteq> 0)"

text \<open>One second passes: every interval that runs adds one to \<open>recordingTime\<close>.\<close>

definition tick :: "recorder \<Rightarrow> recorder" where
  "tick w = w\<lparr>recordingTime := recordingTime w + length (active_timers w)\<rparr>"

text \<open>The effect on the speech results: the transcript shown as the answer.\<close>

datatype speech_result = LegacyText string | Result string

fun js_join :: "string \<Rightarrow> string list \<Rightarrow> string" where
  "js_join sep [] = []"
| "js_join sep [x] = x"
| "js_join sep (x # y # ys) = x @ sep @ js_join sep (y # ys)"

fun transcripts :: "speech_result list \<Rightarrow> string list" where
  "transcripts [] = []"
| "transcripts (LegacyText t # rs) = transcripts rs"
| "transcripts (Result t # rs) = t # transcripts rs"

definition combine_speech :: "speech_result list \<Rightarrow> string option \<Rightarrow> string" where
  "combine_speech results interimResult =
     (let transcript = js_join '' '' (transcripts results);
          parts = filter (\<lambda>t. t \<noteq> [] \<and> t \<noteq> ''undefined'')
                    (transcript # (case interimResult of None \<Rightarrow> [] | Some i \<Rightarrow> [i]))
      in js_trim (remove_matches [''undefined''] (js_join '' '' parts)))"

definition speech_effect :: "speech_result list \<Rightarrow> string option \<Rightarrow> recorder \<Rightarrow> recorder" where
  "speech_effect results interimResult w = w\<lparr>userAnswer := combine_speech results interimResult\<rparr>"

text \<open>
  \<open>generateOverallResult\<close>. The prompt it sends is not modelled: the outcome of the call
  is an input. The reply loses every match of \<open>/(json|```|`)/g\<close>, is trimmed and parsed;
  the \<open>catch\<close> takes a failed call and a failed parse alike.
\<close>

definition markup_patterns :: "string list" where
  "markup_patterns = [''json'', [CHR 0x60, CHR 0x60, CHR 0x60], [CHR 0x60]]"

definition strip_markup :: "string \<Rightarrow> string" where
  "strip_markup t = js_trim (remove_matches markup_patterns t)"

definition fallback_result :: json where
  "fallback_result =
     JObject [(''ratings'', JNumber 0), (''feedback'', JString ''Unable to generate feedback'')]"

definition generateOverallResult :: "ai_outcome \<Rightarrow> recorder \<Rightarrow> json \<times> recorder" where
  "generateOverallResult ai w =
     (let w1 = w\<lparr>isAiGenerating := True\<rparr>;
          parsed = (case ai of
                      AiThrow e \<Rightarrow> None
                    | AiText t \<Rightarrow>
                        (case JSON_parse (strip_markup t) of Inl e \<Rightarrow> None | Inr v \<Rightarrow> Some v))
      in case parsed of
           Some v \<Rightarrow> (v, w1\<lparr>isAiGenerating := False\<rparr>)
         | None \<Rightarrow>
             (fallback_result,
              (add_toast (ToastError ''Error generating overall feedback'') w1)
                \<lparr>isAiGenerating := False\<rparr>))"

text \<open>
  \<open>recordUserAnswer\<close>, the handler of both record buttons. The checks read the
  \<open>recordingTime\<close> and the \<open>userAnswer\<close> of the render the handler belongs to. \<open>ai\<close> is
  the outcome of the call of the AI service, should the handler make one.
\<close>

definition recordUserAnswer :: "recorder_inputs \<Rightarrow> ai_outcome \<Rightarrow> recorder \<Rightarrow> recorder" where
  "recordUserAnswer inp ai w =
     (if isRecording w then
        (let w1 = w\<lparr>isRecording := False\<rparr>;
             w2 = w1\<lparr>userAnswer := js_trim (remove_matches [''undefined''] (userAnswer w1))\<rparr>;
             w3 = (if timer_held w2 then (clearInterval (the (timerRef w2)) w2)\<lparr>timerRef := None\<rparr>
                   else w2)
         in if recordingTime w < MIN_RECORD_TIME then
              add_toast (ToastError ''Minimum 30 seconds recording required'') w3
            else if length (js_trim (userAnswer w)) < 30 then
              add_toast (ToastError ''Your answer should be more than 30 characters'') w3
            else
              (let updatedAnswers = recorded_answers w @ [userAnswer w];
                   w4 = w3\<lparr>recorded_answers := updatedAnswers\<rparr>
               in if isLastQuestion inp then
                    (let (result, w5) = generateOverallResult ai w4
                     in w5\<lparr>aiResult := Some result\<rparr>)
                  else add_toast (ToastSuccess ''Answer recorded'') w4))
      else
        (let w1 = w\<lparr>userAnswer := [], recordingTime := 0, isRecording := True\<rparr>
         in w1\<lparr>timerRef := Some (next_timer w1),
                active_timers := next_timer w1 # active_timers w1,
                next_timer := Suc (next_timer w1)\<rparr>))"

text \<open>
  \<open>saveUserAnswer\<close>, the handler of the confirmation. \<open>addDoc_ok\<close> tells whether the
  write to the document store succeeds.
\<close>

definition saveUserAnswer :: "recorder_inputs \<Rightarrow> bool \<Rightarrow> recorder \<Rightarrow> recorder" where
  "saveUserAnswer inp addDoc_ok w =
     (if recordingTime w < MIN_RECORD_TIME then
        add_toast (ToastError ''Complete minimum recording first'') w
      else
        (let w1 = w\<lparr>loading := True\<rparr>
         in if addDoc_ok then
              (let doc = \<lparr>mockIdRef = interviewId inp,
                          doc_question = qa_question (question inp),
                          correct_ans = qa_answer (question inp),
                          user_ans = userAnswer w,
                          overall_feedback =
                            or_default (optional_prop (aiResult w) ''feedback'') (JString []),
                          overall_rating =
                            or_default (optional_prop (aiResult w) ''ratings'') (JNumber 0),
                          doc_userId = userId inp\<rparr>;
                   w2 = add_toast (ToastSuccess ''Answer saved'')
                          (w1\<lparr>saved_docs := saved_docs w1 @ [doc]\<rparr>)
               in w2\<lparr>userAnswer := [], recordingTime := 0, isRecording := False,
                      modal_open := False,
                      pending_submits := pending_submits w2 @ [userAnswer w],
                      loading := False\<rparr>)
            else (add_toast (ToastError ''Error saving answer'') w1)\<lparr>loading := False\<rparr>))"

text \<open>The save button is disabled, and the clean-up that runs when the component unmounts.\<close>

definition save_disabled :: "recorder_inputs \<Rightarrow> recorder \<Rightarrow> bool" where
  "save_disabled inp w =
     (recordingTime w < MIN_RECORD_TIME \<or> (isLastQuestion inp \<and> \<not> truthy_opt (aiResult w)))"

definition unmount :: "recorder \<Rightarrow> recorder" where
  "unmount w = (if timer_held w then clearInterval (the (timerRef w)) w else w)"

section \<open>Notions of the specification\<close>

text \<open>
  The words of a text in the sense of the specification: its maximal runs of characters
  that are not white space, from left to right.
\<close>

fun words_acc :: "string \<Rightarrow> string \<Rightarrow> string list" where
  "words_acc cur [] = (if cur = [] then [] else [cur])"
| "words_acc cur (c # cs) =
     (if is_space c then (if cur = [] then words_acc [] cs else cur # words_acc [] cs)
      else words_acc (cur @ [c]) cs)"

definition words_of :: "string \<Rightarrow> string list" where
  "words_of s = words_acc [] s"

text \<open>
  The cross-question as the specification words it, of a text as it stands: the last
  word of more than 2 characters that is not among the stop words, its first letter put
  in upper case, wrapped as a question; the fallback prompt when there is no such word.
\<close>

definition upper_first :: "string \<Rightarrow> string" where
  "upper_first w = (case w of [] \<Rightarrow> [] | c # cs \<Rightarrow> toUpperChar c # cs)"

definition stated_cross_question :: "string \<Rightarrow> string" where
  "stated_cross_question a =
     (let ks = filter (\<lambda>w. 2 < length w \<and> w \<notin> set stopWords) (words_of a)
      in if ks = [] then ''Can you explain that in more detail?''
         else ''What is '' @ upper_first (last ks) @ ''?'')"

text \<open>
  The record that the controller keeps for a question: the question, the answer to it
  and the answer to its cross-question joined by the separator, and the reference answer.
\<close>

definition combined_answer :: "qa_pair \<Rightarrow> string \<times> string \<Rightarrow> answer_record" where
  "combined_answer q p =
     \<lparr>ans_question = qa_question q, ans_answer = fst p @ '' | Follow-up: '' @ snd p,
      ans_correct = qa_answer q\<rparr>"

text \<open>
  A round of the controller started at index \<open>i\<close> with the answers \<open>A\<close> kept so far: what
  holds after the main and after the cross submission of the \<open>k\<close>-th pair from there.
\<close>

definition round_from ::
  "qa_pair list \<Rightarrow> answer_record list \<Rightarrow> nat \<Rightarrow> (string \<times> string) list \<Rightarrow> nat
     \<Rightarrow> flow_step \<times> flow_step \<Rightarrow> bool" where
  "round_from qs A i ps k r =
     (case r of ((s1, e1), (s2, e2)) \<Rightarrow>
        activeIndex s1 = i + k \<and> isCrossQuestion s1
        \<and> crossQuestionText s1 = generateCrossQuestion (fst (ps ! k))
        \<and> allAnswers s1 = A @ map2 combined_answer (take k (drop i qs)) (take k ps)
        \<and> navigations e1 = []
        \<and> \<not> isCrossQuestion s2
        \<and> allAnswers s2 = A @ map2 combined_answer (take (Suc k) (drop i qs)) (take (Suc k) ps)
        \<and> (if Suc (i + k) < length qs then activeIndex s2 = Suc (i + k) \<and> navigations e2 = []
            else activeIndex s2 = i + k \<and> navigations e2 = [(allAnswers s2, qs)]))"

text \<open>
  The piece of a text from its first opening bracket to its last closing bracket, both
  included: what stands before the first opening bracket is dropped, then what stands
  behind the last closing bracket.
\<close>

definition between_brackets :: "string \<Rightarrow> string" where
  "between_brackets t =
     rev (dropWhile (\<lambda>c. c \<noteq> CHR '']'') (rev (dropWhile (\<lambda>c. c \<noteq> CHR ''['') t)))"

text \<open>
  A message of a \<open>SyntaxError\<close> that quotes the text it could not parse. The V8 engine
  words its message so for a short text, and names also the character at which it stopped.
\<close>

definition quoting_message :: "string \<Rightarrow> string" where
  \<open>quoting_message s = ''Unexpected token, "'' @ s @ ''" is not valid JSON''\<close>

text \<open>
  What the fuel of the parser has to provide: with more than twice the length of the text
  it does not run out, and a parsed value leaves less text than it was given.
\<close>

definition value_ok :: "nat \<Rightarrow> string \<Rightarrow> bool" where
  "value_ok f cs =
     ((2 * length cs + 1 \<le> f \<longrightarrow> parse_value f cs \<noteq> Inl OutOfFuel)
      \<and> (\<forall>v r. parse_value f cs = Inr (v, r) \<longrightarrow> length r < length cs))"

definition elements_ok :: "nat \<Rightarrow> string \<Rightarrow> bool" where
  "elements_ok f cs =
     ((2 * length cs + 2 \<le> f \<longrightarrow> parse_elements f cs \<noteq> Inl OutOfFuel)
      \<and> (\<forall>vs r. parse_elements f cs = Inr (vs, r) \<longrightarrow> length r < length cs))"

definition members_ok :: "nat \<Rightarrow> string \<Rightarrow> bool" where
  "members_ok f cs =
     ((2 * length cs + 2 \<le> f \<longrightarrow> parse_members f cs \<noteq> Inl OutOfFuel)
      \<and> (\<forall>kvs r. parse_members f cs = Inr (kvs, r) \<longrightarrow> length r < length cs))"

text \<open>
  An interview of two questions, at its first question, and a reply of the AI service
  wrapped in prose and a code fence.
\<close>

definition demo_inputs :: recorder_inputs where
  "demo_inputs =
     \<lparr>question = \<lparr>qa_question = ''What is a closure?'', qa_answer = ''A function with its scope''\<rparr>,
      questions = [\<lparr>qa_question = ''What is a closure?'', qa_answer = ''A function with its scope''\<rparr>,
                   \<lparr>qa_question = ''What is a promise?'', qa_answer = ''A pending result''\<rparr>],
      currentIndex = 0, totalQuestions = 2, interviewId = Some ''demo'', userId = Some ''user_1''\<rparr>"

definition fenced_reply :: string where
  \<open>fenced_reply = ''Here you go:\<newline>```json\<newline>[{"question":"Q","answer":"A"}]\<newline>```''\<close>

text \<open>
  A text starts with a pattern when its first characters are the pattern's.
\<close>

definition starts_with :: "string \<Rightarrow> string \<Rightarrow> bool" where
  "starts_with p s = (take (length p) s = p)"

section \<open>JSON.parse: the fuel suffices\<close>

lemma skip_ws_le: "length (skip_ws cs) \<le> length cs"
  by (simp add: skip_ws_def length_dropWhile_le)

lemma skip_ws_Cons: "skip_ws r = d # r' \<Longrightarrow> length r' < length r"
  using skip_ws_le [of r] by simp

lemma parse_string_chars_shorter:
  "parse_string_chars cs = Some (s, t) \<Longrightarrow> length t < length cs"
proof (induction cs arbitrary: s t rule: parse_string_chars.induct)
  case 1
  then show ?case by simp
next
  case (2 c cs)
  then show ?case
    by (fastforce split: if_splits list.splits option.splits)
qed

lemma parse_digits1_shorter: "parse_digits1 cs = Some (ds, t) \<Longrightarrow> length t < length cs"
proof -
  assume a: "parse_digits1 cs = Some (ds, t)"
  then have ne: "takeWhile is_digit cs \<noteq> []" and t: "t = dropWhile is_digit cs"
    by (auto simp: parse_digits1_def split: if_splits)
  have "length (takeWhile is_digit cs) + length (dropWhile is_digit cs) = length cs"
    by (metis length_append takeWhile_dropWhile_id)
  with ne t show ?thesis by (cases "takeWhile is_digit cs") auto
qed

lemma parse_int_part_shorter: "parse_int_part cs = Some (ds, t) \<Longrightarrow> length t < length cs"
  by (auto simp: parse_int_part_def split: list.splits if_splits dest: parse_digits1_shorter)

lemma parse_frac_shorter: "parse_frac cs = Some (ds, t) \<Longrightarrow> length t \<le> length cs"
  by (auto simp: parse_frac_def split: list.splits if_splits dest: parse_digits1_shorter)

lemma parse_exp_shorter: "parse_exp cs = Some (e, t) \<Longrightarrow> length t \<le> length cs"
  by (auto simp: parse_exp_def split: list.splits if_splits dest!: parse_digits1_shorter)

lemma parse_number_shorter: "parse_number cs = Some (x, t) \<Longrightarrow> length t < length cs"
proof -
  assume a: "parse_number cs = Some (x, t)"
  let ?cs1 = "if cs \<noteq> [] \<and> hd cs = CHR ''-'' then tl cs else cs"
  from a obtain ids r1 fds r2 e where
    i: "parse_int_part ?cs1 = Some (ids, r1)" and f: "parse_frac r1 = Some (fds, r2)"
    and x: "parse_exp r2 = Some (e, t)"
    by (auto simp: parse_number_def Let_def split: option.splits)
  have "length ?cs1 \<le> length cs" by simp
  with parse_int_part_shorter [OF i] parse_frac_shorter [OF f] parse_exp_shorter [OF x]
  show ?thesis by linarith
qed

lemma value_ok_array:
  assumes e: "elements_ok f (d # r')" and sk: "skip_ws r = d # r'" and d: "d \<noteq> CHR '']''"
  shows "value_ok (Suc f) (CHR ''['' # r)"
proof -
  have eq: "parse_value (Suc f) (CHR ''['' # r)
              = (case parse_elements f (d # r') of
                   Inl e \<Rightarrow> Inl e | Inr (vs, t) \<Rightarrow> Inr (JArray vs, t))"
    using sk d by simp
  have len: "length (d # r') \<le> length r" using skip_ws_le [of r] sk by simp
  show ?thesis
    unfolding value_ok_def eq using e len
    by (cases "parse_elements f (d # r')") (auto simp: elements_ok_def)
qed

lemma value_ok_object:
  assumes m: "members_ok f (d # r')" and sk: "skip_ws r = d # r'" and d: "d \<noteq> CHR ''}''"
  shows "value_ok (Suc f) (CHR ''{'' # r)"
proof -
  have eq: "parse_value (Suc f) (CHR ''{'' # r)
              = (case parse_members f (d # r') of
                   Inl e \<Rightarrow> Inl e | Inr (kvs, t) \<Rightarrow> Inr (JObject kvs, t))"
    using sk d by simp
  have len: "length (d # r') \<le> length r" using skip_ws_le [of r] sk by simp
  show ?thesis
    unfolding value_ok_def eq using m len
    by (cases "parse_members f (d # r')") (auto simp: members_ok_def)
qed

lemma value_ok_step:
  assumes e: "\<And>cs. elements_ok f cs" and m: "\<And>cs. members_ok f cs"
  shows "value_ok (Suc f) cs"
proof (cases cs)
  case Nil
  then show ?thesis by (simp add: value_ok_def)
next
  case (Cons c r)
  show ?thesis
  proof (cases "c = CHR ''[''")
    case True
    show ?thesis
    proof (cases "skip_ws r")
      case Nil
      then show ?thesis using Cons True by (simp add: value_ok_def)
    next
      case sk: (Cons d r')
      show ?thesis
      proof (cases "d = CHR '']''")
        case True
        then show ?thesis
          using Cons \<open>c = CHR ''[''\<close> sk skip_ws_Cons [OF sk] by (simp add: value_ok_def)
      next
        case False
        from value_ok_array [OF e sk False] show ?thesis using Cons True by simp
      qed
    qed
  next
    case nb: False
    show ?thesis
    proof (cases "c = CHR ''{''")
      case True
      show ?thesis
      proof (cases "skip_ws r")
        case Nil
        then show ?thesis using Cons True by (simp add: value_ok_def)
      next
        case sk: (Cons d r')
        show ?thesis
        proof (cases "d = CHR ''}''")
          case True
          then show ?thesis
            using Cons \<open>c = CHR ''{''\<close> sk skip_ws_Cons [OF sk] by (simp add: value_ok_def)
        next
          case False
          from value_ok_object [OF m sk False] show ?thesis using Cons True by simp
        qed
      qed
    next
      case no: False
      show ?thesis
      proof (cases "c = CHR 0x22")
        case True
        then show ?thesis
          using Cons by (auto simp: value_ok_def split: option.splits dest: parse_string_chars_shorter)
      next
        case nq: False
        have lit: "length (drop 4 cs) < length cs" "length (drop 5 cs) < length cs"
          using Cons by simp_all
        have num: "parse_number cs = Some (x, t) \<Longrightarrow> length t < length cs" for x t
          by (rule parse_number_shorter)
        have eq: "parse_value (Suc f) cs =
                    (if take 4 cs = ''true'' then Inr (JBool True, drop 4 cs)
                     else if take 5 cs = ''false'' then Inr (JBool False, drop 5 cs)
                     else if take 4 cs = ''null'' then Inr (JNull, drop 4 cs)
                     else (case parse_number cs of
                             None \<Rightarrow> Inl SyntaxError
                           | Some (x, t) \<Rightarrow> Inr (JNumber x, t)))"
          using Cons nb no nq by simp
        show ?thesis
          unfolding value_ok_def eq using lit num
          by (cases "parse_number cs") auto
      qed
    qed
  qed
qed

lemma elements_ok_step:
  assumes v: "\<And>cs. value_ok f cs" and e: "\<And>cs. elements_ok f cs"
  shows "elements_ok (Suc f) cs"
proof (cases "parse_value f (skip_ws cs)")
  case (Inl err)
  have "2 * length cs + 2 \<le> Suc f \<Longrightarrow> err \<noteq> OutOfFuel"
    using v [of "skip_ws cs"] Inl skip_ws_le [of cs] by (auto simp: value_ok_def)
  then show ?thesis using Inl by (auto simp: elements_ok_def)
next
  case (Inr vr)
  obtain x r where vr: "vr = (x, r)" by (cases vr)
  have r: "length r < length (skip_ws cs)"
    using v [of "skip_ws cs"] Inr vr by (simp add: value_ok_def)
  then have r0: "length r < length cs" using skip_ws_le [of cs] by simp
  show ?thesis
  proof (cases "skip_ws r")
    case Nil
    then show ?thesis using Inr vr by (simp add: elements_ok_def)
  next
    case (Cons d r')
    have r': "length r' < length r" using skip_ws_Cons [OF Cons] .
    show ?thesis
    proof (cases "d = CHR '',''")
      case True
      have eq: "parse_elements (Suc f) cs
                  = (case parse_elements f r' of
                       Inl e \<Rightarrow> Inl e | Inr (vs, t) \<Rightarrow> Inr (x # vs, t))"
        using Inr vr Cons True by simp
      show ?thesis
        unfolding elements_ok_def eq using e [of r'] r0 r'
        by (cases "parse_elements f r'") (auto simp: elements_ok_def)
    next
      case False
      then show ?thesis using Inr vr Cons r0 r' by (auto simp: elements_ok_def)
    qed
  qed
qed

lemma members_ok_step:
  assumes v: "\<And>cs. value_ok f cs" and m: "\<And>cs. members_ok f cs"
  shows "members_ok (Suc f) cs"
proof (cases "skip_ws cs")
  case Nil
  then show ?thesis by (simp add: members_ok_def)
next
  case (Cons q r)
  have r: "length r < length cs" using skip_ws_Cons [OF Cons] .
  show ?thesis
  proof (cases "q \<noteq> CHR 0x22")
    case True
    then show ?thesis using Cons by (simp add: members_ok_def)
  next
    case q: False
    show ?thesis
    proof (cases "parse_string_chars r")
      case None
      then show ?thesis using Cons q by (simp add: members_ok_def)
    next
      case (Some kr)
      obtain k r1 where kr: "kr = (k, r1)" by (cases kr)
      have r1: "length r1 < length r" using parse_string_chars_shorter Some kr by simp
      show ?thesis
      proof (cases "skip_ws r1")
        case Nil
        then show ?thesis using Cons q Some kr by (simp add: members_ok_def)
      next
        case c2: (Cons colon r2)
        have r2: "length r2 < length r1" using skip_ws_Cons [OF c2] .
        show ?thesis
        proof (cases "colon \<noteq> CHR '':''")
          case True
          then show ?thesis using Cons q Some kr c2 by (simp add: members_ok_def)
        next
          case col: False
          have s2: "length (skip_ws r2) < length cs"
            using skip_ws_le [of r2] r r1 r2 by simp
          show ?thesis
          proof (cases "parse_value f (skip_ws r2)")
            case (Inl err)
            have eq: "parse_members (Suc f) cs = Inl err"
              using Cons q Some kr c2 col Inl by simp
            have "2 * length cs + 2 \<le> Suc f \<Longrightarrow> err \<noteq> OutOfFuel"
              using v [of "skip_ws r2"] Inl s2 by (auto simp: value_ok_def)
            then show ?thesis unfolding members_ok_def eq by auto
          next
            case (Inr vr)
            obtain x r3 where vr: "vr = (x, r3)" by (cases vr)
            have r3: "length r3 < length cs"
              using v [of "skip_ws r2"] Inr vr s2 by (simp add: value_ok_def)
            show ?thesis
            proof (cases "skip_ws r3")
              case Nil
              then show ?thesis using Cons q Some kr c2 col Inr vr by (simp add: members_ok_def)
            next
              case c4: (Cons d r4)
              have r4: "length r4 < length r3" using skip_ws_Cons [OF c4] .
              show ?thesis
              proof (cases "d = CHR '',''")
                case True
                have eq: "parse_members (Suc f) cs
                            = (case parse_members f r4 of
                                 Inl e \<Rightarrow> Inl e | Inr (kvs, t) \<Rightarrow> Inr ((k, x) # kvs, t))"
                  using Cons q Some kr c2 col Inr vr c4 True by simp
                show ?thesis
                  unfolding members_ok_def eq using m [of r4] r3 r4
                  by (cases "parse_members f r4") (auto simp: members_ok_def)
              next
                case False
                have eq: "parse_members (Suc f) cs
                            = (if d = CHR ''}'' then Inr ([(k, x)], r4) else Inl SyntaxError)"
                  using Cons q Some kr c2 col Inr vr c4 False by simp
                show ?thesis unfolding members_ok_def eq using r3 r4 by auto
              qed
            qed
          qed
        qed
      qed
    qed
  qed
qed

lemma parse_fuel: "value_ok f cs \<and> elements_ok f cs \<and> members_ok f cs"
proof (induction f arbitrary: cs)
  case 0
  show ?case by (simp add: value_ok_def elements_ok_def members_ok_def)
next
  case (Suc f)
  show ?case
    using value_ok_step [of f cs] elements_ok_step [of f cs] members_ok_step [of f cs] Suc
    by blast
qed

text \<open>The fuel that \<open>JSON.parse\<close> starts with is never used up.\<close>

lemma JSON_parse_fuel: "JSON_parse t \<noteq> Inl OutOfFuel"
proof -
  have "2 * length (skip_ws t) + 1 \<le> 2 * length t + 1" using skip_ws_le [of t] by simp
  then have nf: "parse_value (2 * length t + 1) (skip_ws t) \<noteq> Inl OutOfFuel"
    using parse_fuel [of "2 * length t + 1" "skip_ws t"] by (simp only: value_ok_def) blast
  show ?thesis
  proof (cases "parse_value (2 * length t + 1) (skip_ws t)")
    case (Inl e)
    then show ?thesis using nf unfolding JSON_parse_def by (simp only: sum.case) simp
  next
    case (Inr vr)
    then show ?thesis unfolding JSON_parse_def by (cases vr) (simp only: sum.case prod.case, simp)
  qed
qed

section \<open>The cross-question generator: proofs\<close>

lemma split_ws_last:
  "dropWhile (\<lambda>c. \<not> is_space c) cs = [] \<Longrightarrow> split_ws cs = [cs]"
  by (subst split_ws.simps) (simp add: Let_def)

lemma split_ws_step:
  "dropWhile (\<lambda>c. \<not> is_space c) cs \<noteq> [] \<Longrightarrow>
     split_ws cs = takeWhile (\<lambda>c. \<not> is_space c) cs
                     # split_ws (dropWhile is_space (dropWhile (\<lambda>c. \<not> is_space c) cs))"
  using split_ws.simps [of cs] by (simp add: Let_def del: dropWhile_eq_Nil_conv)

lemma split_ws_skip_spaces:
  "filter (\<lambda>w. w \<noteq> []) (split_ws (dropWhile is_space cs)) = filter (\<lambda>w. w \<noteq> []) (split_ws cs)"
proof (cases cs)
  case Nil
  then show ?thesis by simp
next
  case (Cons c cs')
  show ?thesis
  proof (cases "is_space c")
    case True
    then have ne: "dropWhile (\<lambda>c. \<not> is_space c) cs \<noteq> []"
      using Cons by simp
    have "split_ws cs = [] # split_ws (dropWhile is_space cs)"
      using split_ws_step [OF ne] True Cons by simp
    then show ?thesis by simp
  next
    case False
    then show ?thesis using Cons by simp
  qed
qed

lemma words_acc_split_ws:
  "\<forall>c \<in> set cur. \<not> is_space c \<Longrightarrow>
     words_acc cur cs = filter (\<lambda>w. w \<noteq> []) (split_ws (cur @ cs))"
proof (induction cs arbitrary: cur)
  case Nil
  then show ?case by (simp add: split_ws_last)
next
  case (Cons c cs)
  show ?case
  proof (cases "is_space c")
    case True
    have tw: "takeWhile (\<lambda>c. \<not> is_space c) (cur @ c # cs) = cur"
      using Cons.prems True by (simp add: takeWhile_append2)
    have dw: "dropWhile (\<lambda>c. \<not> is_space c) (cur @ c # cs) = c # cs"
      using Cons.prems True by (simp add: dropWhile_append2)
    have "split_ws (cur @ c # cs) = cur # split_ws (dropWhile is_space cs)"
      using True split_ws_step [of "cur @ c # cs"] by (simp add: tw dw)
    moreover have "words_acc [] cs = filter (\<lambda>w. w \<noteq> []) (split_ws cs)"
      using Cons.IH [of "[]"] by simp
    ultimately show ?thesis
      using True by (simp add: split_ws_skip_spaces)
  next
    case False
    then have "\<forall>d \<in> set (cur @ [c]). \<not> is_space d" using Cons.prems by simp
    from Cons.IH [OF this] False show ?thesis by simp
  qed
qed

lemma words_of_split_ws: "words_of s = filter (\<lambda>w. w \<noteq> []) (split_ws s)"
  using words_acc_split_ws [of "[]"] by (simp add: words_of_def)

lemma array_get_last:
  "array_get xs (int (length xs) - 1) = (if xs = [] then None else Some (last xs))"
  by (cases "xs = []") (simp_all add: array_get_def last_conv_nth nat_diff_distrib')

lemma keywords_of_words:
  "filter (\<lambda>w. 2 < length w \<and> w \<notin> set stopWords) (split_ws s)
     = filter (\<lambda>w. 2 < length w \<and> w \<notin> set stopWords) (words_of s)"
proof -
  have "filter (\<lambda>w. 2 < length w \<and> w \<notin> set stopWords) (filter (\<lambda>w. w \<noteq> []) (split_ws s))
          = filter (\<lambda>w. 2 < length w \<and> w \<notin> set stopWords) (split_ws s)"
    by (simp, rule filter_cong, auto)
  then show ?thesis by (simp add: words_of_split_ws)
qed

lemma format_upper_first:
  "w \<noteq> [] \<Longrightarrow> toUpperCase (charAt w 0) @ drop (Suc 0) w = upper_first w"
  by (cases w) (simp_all add: toUpperCase_def charAt_def upper_first_def)

lemma generateCrossQuestion_stated:
  "generateCrossQuestion a = stated_cross_question (toLowerCase a)"
proof (cases "a = []")
  case True
  then show ?thesis
    by (simp add: generateCrossQuestion_def stated_cross_question_def words_of_def
        toLowerCase_def fallback_prompt_def)
next
  case False
  let ?ks = "filter (\<lambda>w. 2 < length w \<and> w \<notin> set stopWords) (words_of (toLowerCase a))"
  show ?thesis
  proof (cases "?ks = []")
    case True
    with False show ?thesis
      by (simp add: generateCrossQuestion_def stated_cross_question_def Let_def
          keywords_of_words array_get_last fallback_prompt_def)
  next
    case ks: False
    then have "last ?ks \<in> set ?ks" by (rule last_in_set)
    then have "2 < length (last ?ks)" by simp
    then have ne: "last ?ks \<noteq> []" by auto
    show ?thesis
      using False ks ne
      by (simp add: generateCrossQuestion_def stated_cross_question_def Let_def
          keywords_of_words array_get_last format_upper_first [OF ne])
  qed
qed

text \<open>
  The answer \<open>I use AWS\<close>: its last word of more than 2 characters that is no stop word
  is \<open>AWS\<close>, which its first letter in upper case leaves as it is; the generator returns
  \<open>What is Aws?\<close>.
\<close>

theorem cross_question_keeps_no_capitals:
  "stated_cross_question ''I use AWS'' = ''What is AWS?''
   \<and> generateCrossQuestion ''I use AWS'' = ''What is Aws?''"
proof -
  have w: "words_of ''I use AWS'' = [''I'', ''use'', ''AWS'']"
    by (simp add: words_of_def is_space_def)
  have a: "stated_cross_question ''I use AWS'' = ''What is AWS?''"
    by (simp add: stated_cross_question_def w stopWords_def upper_first_def toUpperChar_def
        lower_letters_def upper_letters_def)
  have b: "generateCrossQuestion ''I use AWS'' = ''What is Aws?''"
    by code_simp
  show ?thesis by (intro conjI a b)
qed

text \<open>
  Claim C2, amended. The cross-question is a function of the answer text alone, and it
  is computed from the answer in lower case: it is \<open>What is W?\<close> for the last word of the
  lower-cased answer that has more than 2 characters and is no stop word, with its first
  letter in upper case, and the fallback prompt when there is no such word; an answer
  whose words in lower case are all stop words gives the fallback prompt; and the answer
  of the specification's example gives \<open>What is Layer?\<close>.
\<close>

theorem generateCrossQuestion_of_lower_case_text:
  "generateCrossQuestion a = stated_cross_question (toLowerCase a)
   \<and> (set (words_of (toLowerCase a)) \<subseteq> set stopWords \<longrightarrow>
        generateCrossQuestion a = ''Can you explain that in more detail?'')
   \<and> generateCrossQuestion ''I am building a scalable caching layer'' = ''What is Layer?''"
proof (intro conjI impI)
  show "generateCrossQuestion a = stated_cross_question (toLowerCase a)"
    by (rule generateCrossQuestion_stated)
  show "generateCrossQuestion a = ''Can you explain that in more detail?''"
    if "set (words_of (toLowerCase a)) \<subseteq> set stopWords"
  proof -
    have "filter (\<lambda>w. 2 < length w \<and> w \<notin> set stopWords) (words_of (toLowerCase a)) = []"
      using that by (auto simp: filter_empty_conv)
    then show ?thesis
      by (simp add: generateCrossQuestion_stated stated_cross_question_def)
  qed
  show "generateCrossQuestion ''I am building a scalable caching layer'' = ''What is Layer?''"
    by code_simp
qed

theorem generateCrossQuestion_of_lower_case_text_witness:
  "set (words_of (toLowerCase ''It is on THE'')) \<subseteq> set stopWords
   \<and> generateCrossQuestion ''It is on THE'' = ''Can you explain that in more detail?''"
proof -
  have l: "toLowerCase ''It is on THE'' = ''it is on the''"
    by (simp add: toLowerCase_def toLowerChar_def upper_letters_def lower_letters_def)
  have w: "words_of ''it is on the'' = [''it'', ''is'', ''on'', ''the'']"
    by (simp add: words_of_def is_space_def)
  have h: "set (words_of (toLowerCase ''It is on THE'')) \<subseteq> set stopWords"
    by (simp add: l w stopWords_def)
  from generateCrossQuestion_of_lower_case_text [of "''It is on THE''"] h show ?thesis
    by blast
qed

section \<open>The flow controller: proofs\<close>

lemma generateCrossQuestion_nonempty: "generateCrossQuestion a \<noteq> []"
  by (simp add: generateCrossQuestion_def fallback_prompt_def Let_def split: option.split)

lemma hnq_main:
  "\<not> isCrossQuestion st \<Longrightarrow>
     handleNextQuestion qs st a =
       Inr (st\<lparr>showQuestion := False, tempMainAnswer := a,
               crossQuestionText := generateCrossQuestion a, isCrossQuestion := True\<rparr>,
            [CancelSpeech])"
  by (simp add: handleNextQuestion_def Let_def)

lemma hnq_cross:
  "isCrossQuestion st \<Longrightarrow> activeIndex st < length qs \<Longrightarrow>
     handleNextQuestion qs st a =
       (let st2 = st\<lparr>showQuestion := False,
                      allAnswers := allAnswers st @ [combined_answer (qs ! activeIndex st) (tempMainAnswer st, a)],
                      isCrossQuestion := False, crossQuestionText := [], tempMainAnswer := []\<rparr>
        in if Suc (activeIndex st) < length qs
           then Inr (st2\<lparr>activeIndex := Suc (activeIndex st)\<rparr>, [CancelSpeech])
           else Inr (st2, [CancelSpeech, Navigate ''/generate/feedback/demo'' (allAnswers st2) qs]))"
  by (auto simp: handleNextQuestion_def Let_def array_get_def combined_answer_def)

lemma round_from_shift:
  "i < length qs \<Longrightarrow> round_from qs (A @ [combined_answer (qs ! i) p]) (Suc i) ps k r \<Longrightarrow>
     round_from qs A i (p # ps) (Suc k) r"
  by (simp add: round_from_def Cons_nth_drop_Suc [symmetric] split: prod.splits)

lemma run_flow_from:
  "\<not> isCrossQuestion st \<Longrightarrow> activeIndex st = i \<Longrightarrow> i + length ps = length qs \<Longrightarrow>
     \<exists>rounds. run_flow qs st ps = Inr rounds \<and> length rounds = length ps
       \<and> (\<forall>k<length ps. round_from qs (allAnswers st) i ps k (rounds ! k))"
proof (induction ps arbitrary: st i)
  case Nil
  then show ?case by simp
next
  case (Cons p ps)
  have i: "i < length qs" using Cons.prems by simp
  let ?s1 = "st\<lparr>showQuestion := False, tempMainAnswer := fst p,
                 crossQuestionText := generateCrossQuestion (fst p), isCrossQuestion := True\<rparr>"
  let ?c = "combined_answer (qs ! i) p"
  let ?s2 = "?s1\<lparr>showQuestion := False, allAnswers := allAnswers st @ [?c],
                  isCrossQuestion := False, crossQuestionText := [], tempMainAnswer := []\<rparr>"
  have m: "handleNextQuestion qs st (fst p) = Inr (?s1, [CancelSpeech])"
    using Cons.prems(1) by (rule hnq_main)
  have d: "drop i qs = qs ! i # drop (Suc i) qs"
    using i by (rule Cons_nth_drop_Suc [symmetric])
  show ?case
  proof (cases "ps = []")
    case True
    then have last: "\<not> Suc i < length qs" using Cons.prems by simp
    have c: "handleNextQuestion qs ?s1 (snd p)
               = Inr (?s2, [CancelSpeech, Navigate ''/generate/feedback/demo'' (allAnswers ?s2) qs])"
      using hnq_cross [of ?s1 qs "snd p"] i last Cons.prems(2) by (simp add: Let_def)
    have "round_from qs (allAnswers st) i [p] 0
            ((?s1, [CancelSpeech]),
             (?s2, [CancelSpeech, Navigate ''/generate/feedback/demo'' (allAnswers ?s2) qs]))"
      using i last Cons.prems(2)
      by (simp add: round_from_def d)
    then show ?thesis using True m c by simp
  next
    case False
    then have more: "Suc i < length qs" using Cons.prems by (cases ps) auto
    let ?s3 = "?s2\<lparr>activeIndex := Suc i\<rparr>"
    have c: "handleNextQuestion qs ?s1 (snd p) = Inr (?s3, [CancelSpeech])"
      using hnq_cross [of ?s1 qs "snd p"] i more Cons.prems(2) by (simp add: Let_def)
    have "\<exists>rounds. run_flow qs ?s3 ps = Inr rounds \<and> length rounds = length ps
            \<and> (\<forall>k<length ps. round_from qs (allAnswers ?s3) (Suc i) ps k (rounds ! k))"
      using Cons.prems by (intro Cons.IH) simp_all
    then obtain rounds where r: "run_flow qs ?s3 ps = Inr rounds" "length rounds = length ps"
      "\<forall>k<length ps. round_from qs (allAnswers st @ [?c]) (Suc i) ps k (rounds ! k)"
      by auto
    have r0: "round_from qs (allAnswers st) i (p # ps) 0 ((?s1, [CancelSpeech]), (?s3, [CancelSpeech]))"
      using i more Cons.prems(2)
      by (simp add: round_from_def d)
    have "\<forall>k<length (p # ps).
            round_from qs (allAnswers st) i (p # ps) k
              ((((?s1, [CancelSpeech]), (?s3, [CancelSpeech])) # rounds) ! k)"
    proof (intro allI impI)
      fix k assume k: "k < length (p # ps)"
      show "round_from qs (allAnswers st) i (p # ps) k
              ((((?s1, [CancelSpeech]), (?s3, [CancelSpeech])) # rounds) ! k)"
      proof (cases k)
        case 0
        then show ?thesis using r0 by simp
      next
        case (Suc k')
        then have "round_from qs (allAnswers st @ [?c]) (Suc i) ps k' (rounds ! k')"
          using r(3) k by simp
        from round_from_shift [OF i this] Suc show ?thesis by simp
      qed
    qed
    then show ?thesis using m c r by simp
  qed
qed

text \<open>
  Claim C1. For a non-empty list of questions and one pair of answers (main, cross) for
  each, the controller started in its initial state runs through without an error and
  makes one round for each question, in the order of the indices. In round \<open>k\<close> the main
  submission leaves the controller at index \<open>k\<close> asking the cross-question of the main
  answer, with the records of the \<open>k\<close> questions before and no navigation; the cross
  submission appends the one combined record of question \<open>k\<close>; before the last question
  it moves to the next index and does not navigate, and at the last question it navigates
  once, handing over the records, whose number is the number of the questions.
\<close>

theorem flow_one_cross_question_per_main_question:
  assumes "qs \<noteq> []" and "length ps = length qs"
  shows "\<exists>rounds. run_flow qs initial_flow ps = Inr rounds \<and> length rounds = length qs
           \<and> (\<forall>k<length qs.
                 case rounds ! k of ((s1, e1), (s2, e2)) \<Rightarrow>
                   activeIndex s1 = k \<and> isCrossQuestion s1
                   \<and> spoken_text qs s1 = Some (generateCrossQuestion (fst (ps ! k)))
                   \<and> allAnswers s1 = map2 combined_answer (take k qs) (take k ps)
                   \<and> navigations e1 = []
                   \<and> \<not> isCrossQuestion s2
                   \<and> allAnswers s2 = map2 combined_answer (take (Suc k) qs) (take (Suc k) ps)
                   \<and> (if Suc k < length qs
                       then activeIndex s2 = Suc k
                            \<and> spoken_text qs s2 = Some (qa_question (qs ! Suc k))
                            \<and> navigations e2 = []
                       else navigations e2 = [(allAnswers s2, qs)]
                            \<and> length (allAnswers s2) = length qs))"
proof -
  have "\<exists>rounds. run_flow qs initial_flow ps = Inr rounds \<and> length rounds = length ps
          \<and> (\<forall>k<length ps. round_from qs (allAnswers initial_flow) 0 ps k (rounds ! k))"
    using assms by (intro run_flow_from) (simp_all add: initial_flow_def)
  then obtain rounds where r: "run_flow qs initial_flow ps = Inr rounds"
    "length rounds = length ps"
    "\<forall>k<length ps. round_from qs [] 0 ps k (rounds ! k)"
    by (auto simp: initial_flow_def)
  have "\<forall>k<length qs.
          case rounds ! k of ((s1, e1), (s2, e2)) \<Rightarrow>
            activeIndex s1 = k \<and> isCrossQuestion s1
            \<and> spoken_text qs s1 = Some (generateCrossQuestion (fst (ps ! k)))
            \<and> allAnswers s1 = map2 combined_answer (take k qs) (take k ps)
            \<and> navigations e1 = []
            \<and> \<not> isCrossQuestion s2
            \<and> allAnswers s2 = map2 combined_answer (take (Suc k) qs) (take (Suc k) ps)
            \<and> (if Suc k < length qs
                then activeIndex s2 = Suc k
                     \<and> spoken_text qs s2 = Some (qa_question (qs ! Suc k))
                     \<and> navigations e2 = []
                else navigations e2 = [(allAnswers s2, qs)]
                     \<and> length (allAnswers s2) = length qs)"
  proof (intro allI impI)
    fix k assume k: "k < length qs"
    obtain s1 e1 s2 e2 where rk: "rounds ! k = ((s1, e1), (s2, e2))"
      by (metis prod.exhaust)
    have "round_from qs [] 0 ps k (rounds ! k)" using k r(3) assms(2) by simp
    then have f: "activeIndex s1 = k" "isCrossQuestion s1"
      "crossQuestionText s1 = generateCrossQuestion (fst (ps ! k))"
      "allAnswers s1 = map2 combined_answer (take k qs) (take k ps)"
      "navigations e1 = []" "\<not> isCrossQuestion s2"
      "allAnswers s2 = map2 combined_answer (take (Suc k) qs) (take (Suc k) ps)"
      "if Suc k < length qs then activeIndex s2 = Suc k \<and> navigations e2 = []
       else activeIndex s2 = k \<and> navigations e2 = [(allAnswers s2, qs)]"
      by (simp_all add: round_from_def rk)
    have sp1: "spoken_text qs s1 = Some (generateCrossQuestion (fst (ps ! k)))"
      using f(2,3) by (simp add: spoken_text_def generateCrossQuestion_nonempty)
    have len: "length (allAnswers s2) = Suc k"
      using f(7) k assms(2) by simp
    have tail: "if Suc k < length qs
                then activeIndex s2 = Suc k
                     \<and> spoken_text qs s2 = Some (qa_question (qs ! Suc k))
                     \<and> navigations e2 = []
                else navigations e2 = [(allAnswers s2, qs)]
                     \<and> length (allAnswers s2) = length qs"
    proof (cases "Suc k < length qs")
      case True
      have "nat (1 + int k) = Suc k" by simp
      with True show ?thesis using f(6,8) by (simp add: spoken_text_def array_get_def)
    next
      case False
      then have "Suc k = length qs" using k by simp
      then show ?thesis using f(8) False len by simp
    qed
    show "case rounds ! k of ((s1, e1), (s2, e2)) \<Rightarrow>
            activeIndex s1 = k \<and> isCrossQuestion s1
            \<and> spoken_text qs s1 = Some (generateCrossQuestion (fst (ps ! k)))
            \<and> allAnswers s1 = map2 combined_answer (take k qs) (take k ps)
            \<and> navigations e1 = []
            \<and> \<not> isCrossQuestion s2
            \<and> allAnswers s2 = map2 combined_answer (take (Suc k) qs) (take (Suc k) ps)
            \<and> (if Suc k < length qs
                then activeIndex s2 = Suc k
                     \<and> spoken_text qs s2 = Some (qa_question (qs ! Suc k))
                     \<and> navigations e2 = []
                else navigations e2 = [(allAnswers s2, qs)]
                     \<and> length (allAnswers s2) = length qs)"
      unfolding rk prod.case using f(1,2,4,5,6,7) sp1 tail by (intro conjI)
  qed
  with r assms show ?thesis by simp
qed

theorem flow_one_cross_question_per_main_question_witness:
  "[\<lparr>qa_question = ''Q1'', qa_answer = ''A1''\<rparr>, \<lparr>qa_question = ''Q2'', qa_answer = ''A2''\<rparr>] \<noteq> []
   \<and> length [(''I use React'', ''a library''), (''it is'', ''fine'')]
       = length [\<lparr>qa_question = ''Q1'', qa_answer = ''A1''\<rparr>, \<lparr>qa_question = ''Q2'', qa_answer = ''A2''\<rparr>]
   \<and> (\<exists>rounds.
         run_flow [\<lparr>qa_question = ''Q1'', qa_answer = ''A1''\<rparr>, \<lparr>qa_question = ''Q2'', qa_answer = ''A2''\<rparr>]
           initial_flow [(''I use React'', ''a library''), (''it is'', ''fine'')] = Inr rounds
         \<and> length rounds = 2
         \<and> navigations (snd (fst (rounds ! 0))) = []
         \<and> navigations (snd (snd (rounds ! 0))) = []
         \<and> navigations (snd (fst (rounds ! 1))) = []
         \<and> navigations (snd (snd (rounds ! 1)))
             = [([\<lparr>ans_question = ''Q1'', ans_answer = ''I use React | Follow-up: a library'', ans_correct = ''A1''\<rparr>,
                  \<lparr>ans_question = ''Q2'', ans_answer = ''it is | Follow-up: fine'', ans_correct = ''A2''\<rparr>],
                 [\<lparr>qa_question = ''Q1'', qa_answer = ''A1''\<rparr>, \<lparr>qa_question = ''Q2'', qa_answer = ''A2''\<rparr>])])"
proof -
  let ?qs = "[\<lparr>qa_question = ''Q1'', qa_answer = ''A1''\<rparr>, \<lparr>qa_question = ''Q2'', qa_answer = ''A2''\<rparr>]"
  let ?ps = "[(''I use React'', ''a library''), (''it is'', ''fine'')]"
  have a: "?qs \<noteq> []" by simp
  have b: "length ?ps = length ?qs" by simp
  from flow_one_cross_question_per_main_question [OF a b]
  obtain rounds where r: "run_flow ?qs initial_flow ?ps = Inr rounds" "length rounds = length ?qs"
    and all: "\<forall>k<length ?qs.
                 case rounds ! k of ((s1, e1), (s2, e2)) \<Rightarrow>
                   activeIndex s1 = k \<and> isCrossQuestion s1
                   \<and> spoken_text ?qs s1 = Some (generateCrossQuestion (fst (?ps ! k)))
                   \<and> allAnswers s1 = map2 combined_answer (take k ?qs) (take k ?ps)
                   \<and> navigations e1 = []
                   \<and> \<not> isCrossQuestion s2
                   \<and> allAnswers s2 = map2 combined_answer (take (Suc k) ?qs) (take (Suc k) ?ps)
                   \<and> (if Suc k < length ?qs
                       then activeIndex s2 = Suc k
                            \<and> spoken_text ?qs s2 = Some (qa_question (?qs ! Suc k))
                            \<and> navigations e2 = []
                       else navigations e2 = [(allAnswers s2, ?qs)]
                            \<and> length (allAnswers s2) = length ?qs)"
    by blast
  obtain s1 e1 s2 e2 where r0: "rounds ! 0 = ((s1, e1), (s2, e2))"
    by (metis prod.exhaust)
  obtain t1 d1 t2 d2 where r1: "rounds ! Suc 0 = ((t1, d1), (t2, d2))"
    by (metis prod.exhaust)
  from all [rule_format, of 0] have k0:
    "navigations (snd (fst (rounds ! 0))) = [] \<and> navigations (snd (snd (rounds ! 0))) = []"
    by (simp add: r0)
  from all [rule_format, of "Suc 0"] have k1: "navigations (snd (fst (rounds ! 1))) = []
     \<and> navigations (snd (snd (rounds ! 1)))
             = [([\<lparr>ans_question = ''Q1'', ans_answer = ''I use React | Follow-up: a library'', ans_correct = ''A1''\<rparr>,
                  \<lparr>ans_question = ''Q2'', ans_answer = ''it is | Follow-up: fine'', ans_correct = ''A2''\<rparr>],
                 ?qs)]"
    by (simp add: r1 combined_answer_def)
  show ?thesis using a b r k0 k1 by auto
qed

section \<open>The intake form: proofs\<close>

lemma lastIndexOf_succ:
  "lastIndexOf t c + 1 = int (length (dropWhile (\<lambda>x. x \<noteq> c) (rev t)))"
proof (cases "c \<in> set t")
  case True
  have "length (takeWhile (\<lambda>x. x \<noteq> c) (rev t)) + length (dropWhile (\<lambda>x. x \<noteq> c) (rev t))
          = length t"
    using takeWhile_dropWhile_id [of "\<lambda>x. x \<noteq> c" "rev t"]
    by (metis length_append length_rev)
  with True show ?thesis by (simp add: lastIndexOf_def)
next
  case False
  then have "dropWhile (\<lambda>x. x \<noteq> c) (rev t) = []" by auto
  with False show ?thesis by (simp add: lastIndexOf_def)
qed

lemma js_slice_nat:
  "i \<le> length t \<Longrightarrow> m \<le> length t \<Longrightarrow>
     js_slice t (int i) (int m) = (if i < m then take (m - i) (drop i t) else [])"
  by (simp add: js_slice_def Let_def min_def nat_diff_distrib')

lemma rev_dropWhile_rev:
  "rev (dropWhile Q (rev ys)) = take (length (dropWhile Q (rev ys))) ys"
proof -
  have "rev ys = takeWhile Q (rev ys) @ dropWhile Q (rev ys)" by simp
  then have "ys = rev (dropWhile Q (rev ys)) @ rev (takeWhile Q (rev ys))"
    by (metis rev_append rev_rev_ident)
  then have "take (length (rev (dropWhile Q (rev ys)))) ys = rev (dropWhile Q (rev ys))"
    by (metis append_eq_conv_conj)
  then show ?thesis by simp
qed

lemma slice_from_index:
  assumes "i \<le> length t"
  shows "(if i < length (dropWhile Q (rev t))
          then take (length (dropWhile Q (rev t)) - i) (drop i t) else [])
         = rev (dropWhile Q (rev (drop i t)))"
proof -
  have split: "rev t = rev (drop i t) @ rev (take i t)"
    by (metis append_take_drop_id rev_append)
  show ?thesis
  proof (cases "\<exists>x \<in> set (drop i t). \<not> Q x")
    case True
    then obtain x where "x \<in> set (rev (drop i t))" "\<not> Q x" by auto
    then have "dropWhile Q (rev t) = dropWhile Q (rev (drop i t)) @ rev (take i t)"
      unfolding split by (rule dropWhile_append1)
    then have len: "length (dropWhile Q (rev t)) = length (dropWhile Q (rev (drop i t))) + i"
      using assms by simp
    have "dropWhile Q (rev (drop i t)) \<noteq> []" using True by (simp add: dropWhile_eq_Nil_conv)
    then have "i < length (dropWhile Q (rev t))" using len by simp
    then show ?thesis using len rev_dropWhile_rev [of Q "drop i t"] by simp
  next
    case False
    then have e: "dropWhile Q (rev (drop i t)) = []" by simp
    have "dropWhile Q (rev t) = dropWhile Q (rev (take i t))"
      unfolding split using False by (intro dropWhile_append2) auto
    then have "length (dropWhile Q (rev t)) \<le> i"
      using length_dropWhile_le [of Q "rev (take i t)"] assms by simp
    then show ?thesis using e by simp
  qed
qed

lemma bracket_slice_between:
  assumes "CHR ''['' \<in> set t"
  shows "bracket_slice t = between_brackets t"
proof -
  let ?i = "length (takeWhile (\<lambda>c. c \<noteq> CHR ''['') t)"
  let ?m = "length (dropWhile (\<lambda>x. x \<noteq> CHR '']'') (rev t))"
  have i: "?i \<le> length t" by (rule length_takeWhile_le)
  have m: "?m \<le> length t" using length_dropWhile_le [of _ "rev t"] by simp
  have d: "dropWhile (\<lambda>c. c \<noteq> CHR ''['') t = drop ?i t" by (rule dropWhile_eq_drop)
  have "bracket_slice t = js_slice t (int ?i) (int ?m)"
    using assms lastIndexOf_succ [of t "CHR '']''"]
    by (simp add: bracket_slice_def indexOf_def Let_def)
  also have "\<dots> = (if ?i < ?m then take (?m - ?i) (drop ?i t) else [])"
    using i m by (rule js_slice_nat)
  also have "\<dots> = rev (dropWhile (\<lambda>x. x \<noteq> CHR '']'') (rev (drop ?i t)))"
    using i by (rule slice_from_index)
  finally show ?thesis by (simp add: between_brackets_def d)
qed

lemma dropWhile_keeps_length:
  "xs \<noteq> [] \<Longrightarrow> length (dropWhile Q xs) = length xs \<Longrightarrow> \<not> Q (hd xs)"
proof (cases xs)
  case Nil
  assume "xs \<noteq> []"
  with Nil show ?thesis by simp
next
  case (Cons x xs')
  assume len: "length (dropWhile Q xs) = length xs"
  show ?thesis
  proof
    assume "Q (hd xs)"
    then have "length (dropWhile Q xs) = length (dropWhile Q xs')" using Cons by simp
    also have "\<dots> \<le> length xs'" by (rule length_dropWhile_le)
    finally show False using len Cons by simp
  qed
qed

lemma bracket_slice_without_open:
  assumes "CHR ''['' \<notin> set t"
  shows "bracket_slice t = [] \<or> bracket_slice t = '']''"
proof -
  let ?m = "length (dropWhile (\<lambda>x. x \<noteq> CHR '']'') (rev t))"
  have m: "?m \<le> length t" using length_dropWhile_le [of _ "rev t"] by simp
  have s: "bracket_slice t = js_slice t (- 1) (int ?m)"
    using assms lastIndexOf_succ [of t "CHR '']''"]
    by (simp add: bracket_slice_def indexOf_def Let_def)
  show ?thesis
  proof (cases "t \<noteq> [] \<and> ?m = length t")
    case True
    then have "\<not> (hd (rev t) \<noteq> CHR '']'')"
      using dropWhile_keeps_length [of "rev t" "\<lambda>x. x \<noteq> CHR '']''"] by simp
    then have l: "last t = CHR '']''" using True by (simp add: hd_rev)
    obtain ys y where t: "t = ys @ [y]" using True by (cases t rule: rev_cases) auto
    have "js_slice t (- 1) (int ?m) = [last t]"
      using True unfolding t by (simp add: js_slice_def Let_def)
    then show ?thesis using s l by simp
  next
    case False
    then have "js_slice t (- 1) (int ?m) = []"
      using m by (cases t) (auto simp: js_slice_def Let_def)
    then show ?thesis using s by simp
  qed
qed

lemma bracket_slice_without_close:
  assumes "CHR '']'' \<notin> set t"
  shows "bracket_slice t = []"
  using assms by (auto simp: bracket_slice_def lastIndexOf_def indexOf_def js_slice_def Let_def min_def)

lemma JSON_parse_empty: "JSON_parse [] = Inl SyntaxError"
  by code_simp

lemma JSON_parse_close: "JSON_parse '']'' = Inl SyntaxError"
  by code_simp

lemma fenced_reply_slice:
  \<open>bracket_slice fenced_reply = ''[{"question":"Q","answer":"A"}]''\<close>
  by (simp add: fenced_reply_def bracket_slice_def indexOf_def lastIndexOf_def js_slice_def Let_def)

lemma fenced_reply_parse:
  \<open>JSON_parse ''[{"question":"Q","answer":"A"}]''
     = Inr (JArray [JObject [(''question'', JString ''Q''), (''answer'', JString ''A'')]])\<close>
  by code_simp

text \<open>
  Claim C6. For a reply that contains an opening bracket, \<open>cleanAiResponse\<close> is
  \<open>JSON.parse\<close> of the piece from the first opening bracket to the last closing bracket,
  both included; and the reply of the specification's example parses to the array of the
  one object with the question \<open>Q\<close> and the answer \<open>A\<close>.
\<close>

theorem cleanAiResponse_parses_bracket_span:
  \<open>(CHR ''['' \<in> set t \<longrightarrow> cleanAiResponse t = JSON_parse (between_brackets t))
   \<and> cleanAiResponse ''Here you go:\<newline>```json\<newline>[{"question":"Q","answer":"A"}]\<newline>```''
       = Inr (JArray [JObject [(''question'', JString ''Q''), (''answer'', JString ''A'')]])\<close>
  using fenced_reply_slice fenced_reply_parse
  by (simp add: cleanAiResponse_def bracket_slice_between fenced_reply_def)

theorem cleanAiResponse_parses_bracket_span_witness:
  \<open>CHR ''['' \<in> set ''Sure: [1, 2] and ]''
   \<and> between_brackets ''Sure: [1, 2] and ]'' = ''[1, 2] and ]''
   \<and> cleanAiResponse ''Sure: [1, 2] and ]'' = JSON_parse ''[1, 2] and ]''\<close>
proof -
  have a: \<open>CHR ''['' \<in> set ''Sure: [1, 2] and ]''\<close> by simp
  have b: \<open>between_brackets ''Sure: [1, 2] and ]'' = ''[1, 2] and ]''\<close>
    by (simp add: between_brackets_def)
  from cleanAiResponse_parses_bracket_span [of \<open>''Sure: [1, 2] and ]''\<close>] a b
  show ?thesis by simp
qed

text \<open>
  Claim C10. \<open>cleanAiResponse\<close> has no guard for a reply without brackets: when the
  opening or the closing bracket is missing, one of the two indices is \<open>-1\<close>, the piece cut
  out is empty or the single closing bracket, and parsing it throws a \<open>SyntaxError\<close>; so
  it is for the empty reply.
\<close>

theorem cleanAiResponse_throws_without_brackets:
  assumes "CHR ''['' \<notin> set t \<or> CHR '']'' \<notin> set t"
  shows "(indexOf t (CHR ''['') = - 1 \<or> lastIndexOf t (CHR '']'') = - 1)
         \<and> (bracket_slice t = [] \<or> bracket_slice t = '']'')
         \<and> cleanAiResponse t = Inl SyntaxError
         \<and> cleanAiResponse [] = Inl SyntaxError"
proof -
  have i: "indexOf t (CHR ''['') = - 1 \<or> lastIndexOf t (CHR '']'') = - 1"
    using assms by (auto simp: indexOf_def lastIndexOf_def)
  have s: "bracket_slice t = [] \<or> bracket_slice t = '']''"
    using assms bracket_slice_without_open bracket_slice_without_close by blast
  then have c: "cleanAiResponse t = Inl SyntaxError"
    using JSON_parse_empty JSON_parse_close by (auto simp: cleanAiResponse_def)
  have "bracket_slice [] = []" by (rule bracket_slice_without_close) simp
  then have e: "cleanAiResponse [] = Inl SyntaxError"
    using JSON_parse_empty by (simp add: cleanAiResponse_def)
  show ?thesis by (intro conjI i s c e)
qed

theorem cleanAiResponse_throws_without_brackets_witness:
  "CHR ''['' \<notin> set ''No questions today]''
   \<and> indexOf ''No questions today]'' (CHR ''['') = - 1
   \<and> bracket_slice ''No questions today]'' = '']''
   \<and> cleanAiResponse ''No questions today]'' = Inl SyntaxError"
proof -
  have a: "CHR ''['' \<notin> set ''No questions today]''" by simp
  then have a': "CHR ''['' \<notin> set ''No questions today]'' \<or> CHR '']'' \<notin> set ''No questions today]''"
    by (rule disjI1)
  have b: "indexOf ''No questions today]'' (CHR ''['') = - 1" by (simp add: indexOf_def)
  have c: "bracket_slice ''No questions today]'' = '']''"
    by (simp add: bracket_slice_def indexOf_def lastIndexOf_def js_slice_def Let_def)
  from cleanAiResponse_throws_without_brackets [OF a']
  have d: "cleanAiResponse ''No questions today]'' = Inl SyntaxError" by blast
  show ?thesis by (intro conjI a b c d)
qed

lemma generateQuestions_cases:
  "generateQuestions m s =
     (case attempt m (s 0) of
        Inr v \<Rightarrow> \<lparr>outcome = Inr (Some v), calls = 1, delays = []\<rparr>
      | Inl e0 \<Rightarrow>
          if \<not> (is_Error e0 \<and> str_includes (message e0) ''503'')
          then \<lparr>outcome = Inl e0, calls = 1, delays = []\<rparr>
          else
            (case attempt m (s 1) of
               Inr v \<Rightarrow> \<lparr>outcome = Inr (Some v), calls = 2, delays = [2000]\<rparr>
             | Inl e1 \<Rightarrow>
                 if \<not> (is_Error e1 \<and> str_includes (message e1) ''503'')
                 then \<lparr>outcome = Inl e1, calls = 2, delays = [2000]\<rparr>
                 else
                   (case attempt m (s 2) of
                      Inr v \<Rightarrow> \<lparr>outcome = Inr (Some v), calls = 3, delays = [2000, 2000]\<rparr>
                    | Inl e2 \<Rightarrow> \<lparr>outcome = Inl e2, calls = 3, delays = [2000, 2000]\<rparr>)))"
proof -
  have l2: "generateQuestions_loop m s (Suc (Suc 0)) =
      (case attempt m (s 2) of
         Inr v \<Rightarrow> \<lparr>outcome = Inr (Some v), calls = 3, delays = []\<rparr>
       | Inl e2 \<Rightarrow> \<lparr>outcome = Inl e2, calls = 3, delays = []\<rparr>)"
    using generateQuestions_loop.simps [of m s "Suc (Suc 0)"]
    by (simp add: maxAttempts_def numeral_2_eq_2 numeral_3_eq_3 split: sum.splits)
  have l1: "generateQuestions_loop m s (Suc 0) =
      (case attempt m (s 1) of
         Inr v \<Rightarrow> \<lparr>outcome = Inr (Some v), calls = 2, delays = []\<rparr>
       | Inl e1 \<Rightarrow>
           if \<not> (is_Error e1 \<and> str_includes (message e1) ''503'')
           then \<lparr>outcome = Inl e1, calls = 2, delays = []\<rparr>
           else (generateQuestions_loop m s (Suc (Suc 0)))
                  \<lparr>delays := 2000 # delays (generateQuestions_loop m s (Suc (Suc 0)))\<rparr>)"
    using generateQuestions_loop.simps [of m s "Suc 0"]
    by (simp add: maxAttempts_def Let_def split: sum.splits)
  have l0: "generateQuestions_loop m s 0 =
      (case attempt m (s 0) of
         Inr v \<Rightarrow> \<lparr>outcome = Inr (Some v), calls = 1, delays = []\<rparr>
       | Inl e0 \<Rightarrow>
           if \<not> (is_Error e0 \<and> str_includes (message e0) ''503'')
           then \<lparr>outcome = Inl e0, calls = 1, delays = []\<rparr>
           else (generateQuestions_loop m s (Suc 0))
                  \<lparr>delays := 2000 # delays (generateQuestions_loop m s (Suc 0))\<rparr>)"
    using generateQuestions_loop.simps [of m s 0]
    by (simp add: maxAttempts_def Let_def split: sum.splits)
  show ?thesis
    unfolding generateQuestions_def l0 l1 l2 by (simp split: sum.splits)
qed

lemma unparsable_reply:
  \<open>cleanAiResponse ''[503, oops]'' = Inl SyntaxError\<close>
  by code_simp

lemma unparsable_reply_attempt:
  \<open>attempt quoting_message (AiText ''[503, oops]'')
     = Inl (Thrown True ''Unexpected token, "[503, oops]" is not valid JSON'')\<close>
  by (simp add: attempt_def unparsable_reply quoting_message_def bracket_slice_def indexOf_def
      lastIndexOf_def js_slice_def Let_def)

text \<open>
  Claim C5. The loop retries whatever \<open>Error\<close> has the digits 503 in its message, and
  its \<open>try\<close> block holds the parsing of the reply. So a reply that was delivered and does
  not parse is asked for again twice, each time after 2000 milliseconds, when the message
  of the \<open>SyntaxError\<close> quotes a text with those digits; and so is a failure of status 429
  whose message has them. A failure of status 500 is thrown on at once.
\<close>

theorem failure_with_503_in_message_is_retried:
  \<open>attempt quoting_message (AiText ''[503, oops]'')
     = Inl (Thrown True ''Unexpected token, "[503, oops]" is not valid JSON'')
   \<and> generateQuestions quoting_message (\<lambda>n. AiText ''[503, oops]'')
       = \<lparr>outcome = Inl (Thrown True ''Unexpected token, "[503, oops]" is not valid JSON''),
          calls = 3, delays = [2000, 2000]\<rparr>
   \<and> generateQuestions quoting_message
        (\<lambda>n. AiThrow (Thrown True ''[429 Too Many Requests] 1503 tokens used''))
       = \<lparr>outcome = Inl (Thrown True ''[429 Too Many Requests] 1503 tokens used''),
          calls = 3, delays = [2000, 2000]\<rparr>
   \<and> generateQuestions quoting_message
        (\<lambda>n. AiThrow (Thrown True ''[500 Internal Server Error]''))
       = \<lparr>outcome = Inl (Thrown True ''[500 Internal Server Error]''),
          calls = 1, delays = []\<rparr>\<close>
proof -
  have a: \<open>attempt quoting_message (AiText ''[503, oops]'')
             = Inl (Thrown True ''Unexpected token, "[503, oops]" is not valid JSON'')\<close>
    by (rule unparsable_reply_attempt)
  have p: \<open>generateQuestions quoting_message (\<lambda>n. AiText ''[503, oops]'')
       = \<lparr>outcome = Inl (Thrown True ''Unexpected token, "[503, oops]" is not valid JSON''),
          calls = 3, delays = [2000, 2000]\<rparr>\<close>
    by (simp add: generateQuestions_cases a)
  have q: "generateQuestions quoting_message
        (\<lambda>n. AiThrow (Thrown True ''[429 Too Many Requests] 1503 tokens used''))
       = \<lparr>outcome = Inl (Thrown True ''[429 Too Many Requests] 1503 tokens used''),
          calls = 3, delays = [2000, 2000]\<rparr>"
    by (simp add: generateQuestions_cases attempt_def)
  have r: "generateQuestions quoting_message
        (\<lambda>n. AiThrow (Thrown True ''[500 Internal Server Error]''))
       = \<lparr>outcome = Inl (Thrown True ''[500 Internal Server Error]''),
          calls = 1, delays = []\<rparr>"
    by (simp add: generateQuestions_cases attempt_def)
  show ?thesis by (intro conjI a p q r)
qed


section \<open>The answer recorder: proofs\<close>

lemma fenced_reply_stripped:
  \<open>strip_markup ''```json\<newline>{"ratings": 8, "feedback": "Good"}\<newline>```''
     = ''{"ratings": 8, "feedback": "Good"}''\<close>
  by (simp add: strip_markup_def markup_patterns_def match_at_def js_trim_def is_space_def)

lemma parse_plain_reply:
  \<open>JSON_parse ''{"ratings": 7, "feedback": "Learn json schema"}''
     = Inr (JObject [(''ratings'', JNumber 7), (''feedback'', JString ''Learn json schema'')])\<close>
  by code_simp

lemma strip_plain_reply:
  \<open>strip_markup ''{"ratings": 7, "feedback": "Learn json schema"}''
     = ''{"ratings": 7, "feedback": "Learn  schema"}''\<close>
  by (simp add: strip_markup_def markup_patterns_def match_at_def js_trim_def is_space_def)

lemma parse_stripped_reply:
  \<open>JSON_parse ''{"ratings": 7, "feedback": "Learn  schema"}''
     = Inr (JObject [(''ratings'', JNumber 7), (''feedback'', JString ''Learn  schema'')])\<close>
  by code_simp

lemma starts_with_split:
  "starts_with p s \<Longrightarrow> \<exists>r. s = p @ r \<and> drop (length p) s = r"
  unfolding starts_with_def by (metis append_take_drop_id)

lemma match_at_json:
  "match_at [''json''] s = (if starts_with ''json'' s then Some ''json'' else None)"
  by (simp add: match_at_def starts_with_def)

lemma match_at_markup:
  "match_at markup_patterns s =
     (if starts_with ''json'' s then Some ''json''
      else if starts_with [CHR 0x60, CHR 0x60, CHR 0x60] s then Some [CHR 0x60, CHR 0x60, CHR 0x60]
      else if starts_with [CHR 0x60] s then Some [CHR 0x60]
      else None)"
  by (simp add: match_at_def markup_patterns_def starts_with_def)

lemma starts_with_back_quote: "starts_with [CHR 0x60] (c # cs) \<longleftrightarrow> c = CHR 0x60"
  by (simp add: starts_with_def)

lemma starts_with_json_back_quote: "\<not> starts_with ''json'' (CHR 0x60 # s)"
  by (simp add: starts_with_def)

lemma starts_with_json_append:
  "starts_with ''json'' ((c # cs) @ ''json'' @ b) \<longleftrightarrow> starts_with ''json'' (c # cs)"
  unfolding starts_with_def
  by (cases cs; cases "tl cs"; cases "tl (tl cs)") (auto simp: numeral_eq_Suc)

lemma remove_json_back_quote:
  "remove_matches [''json''] (CHR 0x60 # s) = CHR 0x60 # remove_matches [''json''] s"
  by (simp add: match_at_json starts_with_json_back_quote)

lemma remove_json_json:
  "remove_matches [''json''] (''json'' @ x) = remove_matches [''json''] x"
  by (simp add: match_at_def)

lemma markup_as_filter:
  "remove_matches markup_patterns t
     = filter (\<lambda>c. c \<noteq> CHR 0x60) (remove_matches [''json''] t)"
proof (induction markup_patterns t rule: remove_matches.induct)
  case 1
  then show ?case by simp
next
  case (2 c cs)
  show ?case
  proof (cases "starts_with ''json'' (c # cs)")
    case True
    then have m: "match_at markup_patterns (c # cs) = Some ''json''"
      by (simp add: match_at_markup)
    have j: "match_at [''json''] (c # cs) = Some ''json''"
      using True by (simp add: match_at_json)
    from "2.hyps"(2) [OF m] m j show ?thesis by simp
  next
    case nj: False
    then have j: "match_at [''json''] (c # cs) = None" by (simp add: match_at_json)
    show ?thesis
    proof (cases "c = CHR 0x60")
      case True
      show ?thesis
      proof (cases "starts_with [CHR 0x60, CHR 0x60, CHR 0x60] (c # cs)")
        case t3: True
        then have m: "match_at markup_patterns (c # cs) = Some [CHR 0x60, CHR 0x60, CHR 0x60]"
          using nj by (simp add: match_at_markup)
        from starts_with_split [OF t3] obtain r
          where e: "c # cs = [CHR 0x60, CHR 0x60, CHR 0x60] @ r"
            and d: "drop (length [CHR 0x60, CHR 0x60, CHR 0x60]) (c # cs) = r"
          by blast
        have lhs: "remove_matches markup_patterns (c # cs) = remove_matches markup_patterns r"
          using m d by simp
        have ih: "remove_matches markup_patterns r
                    = filter (\<lambda>c. c \<noteq> CHR 0x60) (remove_matches [''json''] r)"
          using "2.hyps"(2) [OF m] d by simp
        have rhs: "remove_matches [''json''] (c # cs)
                     = CHR 0x60 # CHR 0x60 # CHR 0x60 # remove_matches [''json''] r"
          unfolding e by (simp only: append.simps remove_json_back_quote)
        show ?thesis unfolding lhs ih rhs by simp
      next
        case nt: False
        then have m: "match_at markup_patterns (c # cs) = Some [CHR 0x60]"
          using nj True by (simp add: match_at_markup starts_with_back_quote)
        from "2.hyps"(2) [OF m] m j True show ?thesis by simp
      qed
    next
      case False
      have "\<not> starts_with [CHR 0x60, CHR 0x60, CHR 0x60] (c # cs)"
        using False by (simp add: starts_with_def)
      then have m: "match_at markup_patterns (c # cs) = None"
        using nj False by (simp add: match_at_markup starts_with_back_quote)
      from "2.hyps"(1) [OF m] m j False show ?thesis by simp
    qed
  qed
qed

lemma remove_json_append:
  "remove_matches [''json''] (a @ ''json'' @ b)
     = remove_matches [''json''] a @ remove_matches [''json''] b"
proof (induction "[''json'']" a rule: remove_matches.induct)
  case 1
  show ?case using remove_json_json [of b] by simp
next
  case (2 c cs)
  show ?case
  proof (cases "starts_with ''json'' (c # cs)")
    case False
    then have n: "match_at [''json''] (c # cs) = None" by (simp add: match_at_json)
    have "\<not> starts_with ''json'' ((c # cs) @ ''json'' @ b)"
      using False starts_with_json_append [of c cs b] by simp
    then have n': "match_at [''json''] (c # (cs @ ''json'' @ b)) = None"
      by (simp add: match_at_json)
    have "remove_matches [''json''] (c # (cs @ ''json'' @ b))
            = c # remove_matches [''json''] (cs @ ''json'' @ b)"
      using n' by (simp only: remove_matches.simps option.case)
    with "2.hyps"(1) [OF n] n show ?thesis by simp
  next
    case True
    then have m: "match_at [''json''] (c # cs) = Some ''json''" by (simp add: match_at_json)
    from starts_with_split [OF True] obtain r
      where e: "c # cs = ''json'' @ r" and d: "drop (length ''json'') (c # cs) = r"
      by blast
    have ih: "remove_matches [''json''] (r @ ''json'' @ b)
                = remove_matches [''json''] r @ remove_matches [''json''] b"
      using "2.hyps"(2) [OF m] d by simp
    have "remove_matches [''json''] ((c # cs) @ ''json'' @ b)
            = remove_matches [''json''] (''json'' @ (r @ ''json'' @ b))"
      unfolding e by simp
    also have "\<dots> = remove_matches [''json''] (r @ ''json'' @ b)"
      by (rule remove_json_json)
    also note ih
    finally have l: "remove_matches [''json''] ((c # cs) @ ''json'' @ b)
                       = remove_matches [''json''] r @ remove_matches [''json''] b" .
    have "remove_matches [''json''] (c # cs) = remove_matches [''json''] (''json'' @ r)"
      unfolding e ..
    also have "\<dots> = remove_matches [''json''] r" by (rule remove_json_json)
    finally show ?thesis using l by simp
  qed
qed

lemma remove_json_absent:
  "\<not> str_includes t ''json'' \<Longrightarrow> remove_matches [''json''] t = t"
proof (induction t)
  case Nil
  then show ?case by simp
next
  case (Cons c cs)
  then have "match_at [''json''] (c # cs) = None" by (auto simp: match_at_def)
  with Cons show ?case by simp
qed

lemma str_includes_iff: "str_includes t p \<longleftrightarrow> (\<exists>a b. t = a @ p @ b)"
proof (induction t)
  case Nil
  show ?case by simp
next
  case (Cons c cs)
  show ?case
  proof
    assume "str_includes (c # cs) p"
    then consider "take (length p) (c # cs) = p" | "str_includes cs p" by auto
    then show "\<exists>a b. c # cs = a @ p @ b"
    proof cases
      case 1
      then have "c # cs = [] @ p @ drop (length p) (c # cs)"
        by (metis append_Nil append_take_drop_id)
      then show ?thesis by blast
    next
      case 2
      with Cons obtain a b where "cs = a @ p @ b" by blast
      then have "c # cs = (c # a) @ p @ b" by simp
      then show ?thesis by blast
    qed
  next
    assume "\<exists>a b. c # cs = a @ p @ b"
    then obtain a b where e: "c # cs = a @ p @ b" by blast
    show "str_includes (c # cs) p"
    proof (cases a)
      case Nil
      with e have "take (length p) (c # cs) = p" by simp
      then show ?thesis by simp
    next
      case (Cons x a')
      with e have "cs = a' @ p @ b" by simp
      then have "str_includes cs p" using Cons.IH by blast
      then show ?thesis by simp
    qed
  qed
qed

lemma parse_fenced_payload:
  \<open>JSON_parse ''{"ratings": 8, "feedback": "Good"}''
     = Inr (JObject [(''ratings'', JNumber 8), (''feedback'', JString ''Good'')])\<close>
  by code_simp

text \<open>
  The reply \<open>{"ratings": 7, "feedback": "Learn json schema"}\<close> holds no back quote and
  is JSON as it stands, yet \<open>generateOverallResult\<close> returns a feedback without the word
  \<open>json\<close>: the payload's own content is changed.
\<close>

theorem strip_markup_changes_payload:
  \<open>CHR 0x60 \<notin> set ''{"ratings": 7, "feedback": "Learn json schema"}''
   \<and> JSON_parse ''{"ratings": 7, "feedback": "Learn json schema"}''
       = Inr (JObject [(''ratings'', JNumber 7), (''feedback'', JString ''Learn json schema'')])
   \<and> fst (generateOverallResult (AiText ''{"ratings": 7, "feedback": "Learn json schema"}'')
            initial_recorder)
       = JObject [(''ratings'', JNumber 7), (''feedback'', JString ''Learn  schema'')]\<close>
  by (simp add: parse_plain_reply generateOverallResult_def Let_def strip_plain_reply
      parse_stripped_reply)

text \<open>
  Claim C7, amended. Before parsing, \<open>generateOverallResult\<close> deletes from the reply
  every occurrence of the letters \<open>json\<close> and every back quote, wherever they stand
  (also inside the strings of the payload), and trims the rest. The deletion of \<open>json\<close>
  goes through the text piece by piece: around an occurrence it is the deletion in the text
  before it followed by the deletion in the text after it, it leaves a text without
  \<open>json\<close> as it is, and \<open>json\<close> is in a text exactly when the text is some text, then
  \<open>json\<close>, then some text. The result is the value that \<open>JSON.parse\<close> gives for the
  remainder, with the fallback result when the remainder does not parse: a fenced reply
  with a rating and a feedback gives the object of these two.
\<close>

theorem strip_markup_deletes_json_and_back_quotes:
  \<open>strip_markup t = js_trim (filter (\<lambda>c. c \<noteq> CHR 0x60) (remove_matches [''json''] t))
   \<and> remove_matches [''json''] (a @ ''json'' @ b)
       = remove_matches [''json''] a @ remove_matches [''json''] b
   \<and> (\<not> str_includes t ''json'' \<longrightarrow> remove_matches [''json''] t = t)
   \<and> (str_includes t ''json'' \<longleftrightarrow> (\<exists>a b. t = a @ ''json'' @ b))
   \<and> fst (generateOverallResult (AiText t) w)
       = (case JSON_parse (strip_markup t) of Inl e \<Rightarrow> fallback_result | Inr v \<Rightarrow> v)
   \<and> fst (generateOverallResult
             (AiText ''```json\<newline>{"ratings": 8, "feedback": "Good"}\<newline>```'') w)
       = JObject [(''ratings'', JNumber 8), (''feedback'', JString ''Good'')]\<close>
proof (intro conjI impI)
  show "strip_markup t = js_trim (filter (\<lambda>c. c \<noteq> CHR 0x60) (remove_matches [''json''] t))"
    by (simp add: strip_markup_def markup_as_filter)
  show "remove_matches [''json''] (a @ ''json'' @ b)
          = remove_matches [''json''] a @ remove_matches [''json''] b"
    by (rule remove_json_append)
  show "remove_matches [''json''] t = t" if "\<not> str_includes t ''json''"
    using that by (rule remove_json_absent)
  show "str_includes t ''json'' \<longleftrightarrow> (\<exists>a b. t = a @ ''json'' @ b)"
    by (rule str_includes_iff)
  show g: "fst (generateOverallResult (AiText t) w)
          = (case JSON_parse (strip_markup t) of Inl e \<Rightarrow> fallback_result | Inr v \<Rightarrow> v)"
    for t by (simp add: generateOverallResult_def Let_def split: sum.splits)
  show \<open>fst (generateOverallResult
               (AiText ''```json\<newline>{"ratings": 8, "feedback": "Good"}\<newline>```'') w)
          = JObject [(''ratings'', JNumber 8), (''feedback'', JString ''Good'')]\<close>
    unfolding g fenced_reply_stripped parse_fenced_payload by simp
qed

theorem strip_markup_deletes_json_and_back_quotes_witness:
  \<open>\<not> str_includes ''{"ratings": 8}'' ''json''
   \<and> remove_matches [''json''] ''{"ratings": 8}'' = ''{"ratings": 8}''\<close>
proof -
  have a: \<open>\<not> str_includes ''{"ratings": 8}'' ''json''\<close> by simp
  from strip_markup_deletes_json_and_back_quotes [of \<open>''{"ratings": 8}''\<close>] a
  show ?thesis by blast
qed

lemma parse_apology: "JSON_parse (strip_markup ''Sorry, I cannot rate this.'') = Inl SyntaxError"
  by code_simp

text \<open>
  Claim C8. When the call of the AI service fails, or its reply does not parse after
  the stripping, \<open>generateOverallResult\<close> returns the fallback result, with the rating 0
  and the fixed feedback text, shows an error toast and ends the loading state; on the
  last question a valid recording then has an overall result, and its save button is
  enabled.
\<close>

theorem overall_result_falls_back:
  assumes "ai = AiThrow e \<or> (\<exists>t err. ai = AiText t \<and> JSON_parse (strip_markup t) = Inl err)"
  shows "generateOverallResult ai w
           = (JObject [(''ratings'', JNumber 0),
                       (''feedback'', JString ''Unable to generate feedback'')],
              w\<lparr>toasts := toasts w @ [ToastError ''Error generating overall feedback''],
                isAiGenerating := False\<rparr>)
         \<and> (isRecording w \<and> 30 \<le> recordingTime w \<and> 30 \<le> length (js_trim (userAnswer w))
              \<and> isLastQuestion inp \<longrightarrow>
              aiResult (recordUserAnswer inp ai w)
                = Some (JObject [(''ratings'', JNumber 0),
                                 (''feedback'', JString ''Unable to generate feedback'')])
              \<and> \<not> save_disabled inp (recordUserAnswer inp ai w))"
proof -
  have g: "generateOverallResult ai w'
           = (fallback_result,
              w'\<lparr>toasts := toasts w' @ [ToastError ''Error generating overall feedback''],
                isAiGenerating := False\<rparr>)" for w'
    using assms by (auto simp: generateOverallResult_def Let_def add_toast_def)
  show ?thesis
    by (auto simp: g fallback_result_def [symmetric] recordUserAnswer_def Let_def
        MIN_RECORD_TIME_def save_disabled_def truthy_opt_def clearInterval_def)
       (simp_all add: fallback_result_def)
qed

theorem overall_result_falls_back_witness:
  "(\<exists>t err. AiText ''Sorry, I cannot rate this.'' = AiText t \<and> JSON_parse (strip_markup t) = Inl err)
   \<and> fst (generateOverallResult (AiText ''Sorry, I cannot rate this.'') initial_recorder)
       = JObject [(''ratings'', JNumber 0), (''feedback'', JString ''Unable to generate feedback'')]
   \<and> fst (generateOverallResult (AiThrow (Thrown True ''503 Service Unavailable'')) initial_recorder)
       = JObject [(''ratings'', JNumber 0), (''feedback'', JString ''Unable to generate feedback'')]"
proof -
  have a: "\<exists>t err. AiText ''Sorry, I cannot rate this.'' = AiText t \<and> JSON_parse (strip_markup t) = Inl err"
    using parse_apology by blast
  then have a': "AiText ''Sorry, I cannot rate this.'' = AiThrow e
       \<or> (\<exists>t err. AiText ''Sorry, I cannot rate this.'' = AiText t \<and> JSON_parse (strip_markup t) = Inl err)"
    for e by blast
  have b: "AiThrow (Thrown True ''503 Service Unavailable'') = AiThrow (Thrown True ''503 Service Unavailable'')
       \<or> (\<exists>t err. AiThrow (Thrown True ''503 Service Unavailable'') = AiText t
                    \<and> JSON_parse (strip_markup t) = Inl err)"
    by simp
  from overall_result_falls_back [OF a', of initial_recorder]
  have c: "fst (generateOverallResult (AiText ''Sorry, I cannot rate this.'') initial_recorder)
       = JObject [(''ratings'', JNumber 0), (''feedback'', JString ''Unable to generate feedback'')]"
    by simp
  from overall_result_falls_back [OF b, of initial_recorder]
  have d: "fst (generateOverallResult (AiThrow (Thrown True ''503 Service Unavailable'')) initial_recorder)
       = JObject [(''ratings'', JNumber 0), (''feedback'', JString ''Unable to generate feedback'')]"
    by simp
  show ?thesis by (intro conjI a c d)
qed

text \<open>
  Claim C4. With less than 30 seconds recorded, \<open>saveUserAnswer\<close> only shows an error:
  it writes no document and schedules no submission, whatever the transcript; and
  stopping such a recording shows an error, records no answer, asks for no overall result
  and writes nothing.
\<close>

theorem short_recording_is_rejected:
  assumes "recordingTime w < 30"
  shows "saveUserAnswer inp ok w = add_toast (ToastError ''Complete minimum recording first'') w
         \<and> saved_docs (saveUserAnswer inp ok w) = saved_docs w
         \<and> pending_submits (saveUserAnswer inp ok w) = pending_submits w
         \<and> (isRecording w \<longrightarrow>
               toasts (recordUserAnswer inp ai w)
                 = toasts w @ [ToastError ''Minimum 30 seconds recording required'']
               \<and> recorded_answers (recordUserAnswer inp ai w) = recorded_answers w
               \<and> aiResult (recordUserAnswer inp ai w) = aiResult w
               \<and> saved_docs (recordUserAnswer inp ai w) = saved_docs w
               \<and> pending_submits (recordUserAnswer inp ai w) = pending_submits w)"
  using assms
  by (simp add: saveUserAnswer_def recordUserAnswer_def MIN_RECORD_TIME_def add_toast_def
      clearInterval_def Let_def)

theorem short_recording_is_rejected_witness:
  "recordingTime (initial_recorder\<lparr>isRecording := True, recordingTime := 12,
        userAnswer := ''A closure is a function together with the variables of its scope''\<rparr>) < 30
   \<and> isRecording (initial_recorder\<lparr>isRecording := True, recordingTime := 12,
        userAnswer := ''A closure is a function together with the variables of its scope''\<rparr>)
   \<and> saved_docs (saveUserAnswer demo_inputs True
        (initial_recorder\<lparr>isRecording := True, recordingTime := 12,
           userAnswer := ''A closure is a function together with the variables of its scope''\<rparr>)) = []
   \<and> toasts (recordUserAnswer demo_inputs (AiText [])
        (initial_recorder\<lparr>isRecording := True, recordingTime := 12,
           userAnswer := ''A closure is a function together with the variables of its scope''\<rparr>))
       = [ToastError ''Minimum 30 seconds recording required'']"
proof -
  let ?w = "initial_recorder\<lparr>isRecording := True, recordingTime := 12,
        userAnswer := ''A closure is a function together with the variables of its scope''\<rparr>"
  have a: "recordingTime ?w < 30" by simp
  have b: "isRecording ?w" by simp
  have c: "saved_docs ?w = []" "toasts ?w = []" by (simp_all add: initial_recorder_def)
  note t = short_recording_is_rejected [OF a, of demo_inputs True "AiText []"]
  from t have "saved_docs (saveUserAnswer demo_inputs True ?w) = saved_docs ?w" by blast
  with c have s1: "saved_docs (saveUserAnswer demo_inputs True ?w) = []" by simp
  from t b have "toasts (recordUserAnswer demo_inputs (AiText []) ?w)
                   = toasts ?w @ [ToastError ''Minimum 30 seconds recording required'']"
    by blast
  with c have s2: "toasts (recordUserAnswer demo_inputs (AiText []) ?w)
                     = [ToastError ''Minimum 30 seconds recording required'']" by simp
  show ?thesis by (intro conjI a b s1 s2)
qed

lemma tick_funpow:
  "(tick ^^ n) w = w\<lparr>recordingTime := recordingTime w + n * length (active_timers w)\<rparr>"
  by (induction n) (simp_all add: tick_def)

text \<open>
  Claim C3. \<open>saveUserAnswer\<close> does not look at the transcript. On a question that is
  not the last, a recording of 30 seconds with the transcript \<open>Too short\<close> is stopped with
  the error of the length check; the save button is enabled all the same, and saving writes
  the document with this transcript and schedules the submission.
\<close>

theorem short_answer_is_saved:
  "(let inp = demo_inputs;
        w1 = recordUserAnswer inp (AiText []) initial_recorder;
        w2 = speech_effect [Result ''Too short''] None w1;
        w3 = (tick ^^ 30) w2;
        w4 = recordUserAnswer inp (AiText []) w3;
        w5 = saveUserAnswer inp True w4
    in recordingTime w4 = 30
       \<and> length (js_trim (userAnswer w4)) = 9
       \<and> toasts w4 = [ToastError ''Your answer should be more than 30 characters'']
       \<and> \<not> save_disabled inp w4
       \<and> map user_ans (saved_docs w5) = [''Too short'']
       \<and> pending_submits w5 = [''Too short''])"
  by (simp add: Let_def recordUserAnswer_def saveUserAnswer_def speech_effect_def
      combine_speech_def tick_funpow initial_recorder_def demo_inputs_def js_trim_def
      is_space_def match_at_def MIN_RECORD_TIME_def isLastQuestion_def add_toast_def
      clearInterval_def timer_held_def save_disabled_def or_default_def optional_prop_def
      truthy_opt_def)

text \<open>
  Claim C9. \<open>saveUserAnswer\<close> stops the speech recognition without clearing the
  interval. Saving while the recording runs leaves the timer running and counting in a
  recorder that no longer records; stopping the recording by the record button, or
  unmounting the component, clears it. A recording started before the component
  unmounts takes a new handle, and the unmounting then clears the new timer only.
\<close>

theorem save_leaves_timer_running:
  "(let inp = demo_inputs;
        w1 = recordUserAnswer inp (AiText []) initial_recorder;
        w2 = (tick ^^ 30) w1;
        w3 = saveUserAnswer inp True w2
    in active_timers w1 = [1]
       \<and> \<not> save_disabled inp w2
       \<and> length (saved_docs w3) = 1
       \<and> \<not> isRecording w3
       \<and> timerRef w3 = Some 1
       \<and> active_timers w3 = [1]
       \<and> recordingTime w3 = 0
       \<and> recordingTime (tick w3) = 1
       \<and> active_timers (recordUserAnswer inp (AiText []) w2) = []
       \<and> active_timers (unmount w3) = []
       \<and> active_timers (recordUserAnswer inp (AiText []) w3) = [2, 1]
       \<and> active_timers (unmount (recordUserAnswer inp (AiText []) w3)) = [1])"
  by (simp add: Let_def recordUserAnswer_def saveUserAnswer_def tick_funpow tick_def
      initial_recorder_def demo_inputs_def js_trim_def is_space_def match_at_def
      MIN_RECORD_TIME_def isLastQuestion_def add_toast_def clearInterval_def timer_held_def
      save_disabled_def or_default_def optional_prop_def truthy_opt_def unmount_def)

end
